theory Spec2Isabelle
  imports Main "HOL-Library.Word"
begin

unbundle bit_operations_syntax

section \<open>Hash kernel\<close>

text \<open>
  The utilities at the top of \<^verbatim>\<open>xorfilter.h\<close>. \<^verbatim>\<open>uint64_t\<close> is \<open>64 word\<close>,
  \<^verbatim>\<open>uint32_t\<close> and \<^verbatim>\<open>unsigned int\<close> are \<open>32 word\<close>; \<open>+\<close>, \<open>*\<close> and unary minus wrap
  around, \<open>drop_bit\<close> is the logical right shift, \<open>push_bit\<close> the left shift, and a cast
  to a narrower unsigned type is \<open>ucast\<close>.
\<close>

definition xor_murmur64 :: "64 word \<Rightarrow> 64 word" where
  "xor_murmur64 h =
     (let h = h XOR drop_bit 33 h;
          h = h * 0xff51afd7ed558ccd;
          h = h XOR drop_bit 33 h;
          h = h * 0xc4ceb9fe1a85ec53;
          h = h XOR drop_bit 33 h
      in h)"

definition xor_mix_split :: "64 word \<Rightarrow> 64 word \<Rightarrow> 64 word" where
  "xor_mix_split key seed = xor_murmur64 (key + seed)"

definition xor_rotl64 :: "64 word \<Rightarrow> 32 word \<Rightarrow> 64 word" where
  "xor_rotl64 n c = push_bit (unat (c AND 63)) n OR drop_bit (unat ((- c) AND 63)) n"

definition xor_reduce :: "32 word \<Rightarrow> 32 word \<Rightarrow> 32 word" where
  "xor_reduce hash n = ucast (drop_bit 32 ((ucast hash :: 64 word) * ucast n))"

definition xor_fingerprint :: "64 word \<Rightarrow> 64 word" where
  "xor_fingerprint hash = hash XOR drop_bit 32 hash"

definition xor_rng_splitmix64 :: "64 word \<Rightarrow> 64 word \<times> 64 word" where
  "xor_rng_splitmix64 seed =
     (let seed' = seed + 0x9E3779B97F4A7C15;
          z = seed';
          z = (z XOR drop_bit 30 z) * 0xBF58476D1CE4E5B9;
          z = (z XOR drop_bit 27 z) * 0x94D049BB133111EB
      in (z XOR drop_bit 31 z, seed'))"

section \<open>Undefined behaviour as a value\<close>

text \<open>
  C leaves an array access outside the array, a dereferenced null pointer and a
  floating-point value converted to an integer type that cannot hold it undefined.
  The model makes each of them a \<open>fault\<close>: a function that can run into one returns
  \<open>fault + 'a\<close>, and \<open>on_ok\<close> sequences two such steps.
\<close>

datatype fault = OutOfBounds | NullPointer | ConversionRange

definition on_ok :: "fault + 'a \<Rightarrow> ('a \<Rightarrow> fault + 'b) \<Rightarrow> fault + 'b" where
  "on_ok m f = (case m of Inl e \<Rightarrow> Inl e | Inr x \<Rightarrow> f x)"

definition array_get :: "'a list \<Rightarrow> nat \<Rightarrow> fault + 'a" where
  "array_get xs i = (if i < length xs then Inr (xs ! i) else Inl OutOfBounds)"

definition array_set :: "'a list \<Rightarrow> nat \<Rightarrow> 'a \<Rightarrow> fault + 'a list" where
  "array_set xs i v = (if i < length xs then Inr (xs[i := v]) else Inl OutOfBounds)"

section \<open>Filter layout and query\<close>

text \<open>
  \<^verbatim>\<open>xor8_t\<close> and \<^verbatim>\<open>xor16_t\<close> differ in the cell type only, so one record with the cell
  type as parameter models both. \<open>fingerprints\<close> is the pointer together with the cells
  it points to: \<open>None\<close> is \<^verbatim>\<open>NULL\<close>.
\<close>

record 'c xor_t =
  seed :: "64 word"
  blockLength :: "64 word"
  fingerprints :: "'c list option"

type_synonym xor8_t = "8 word xor_t"
type_synonym xor16_t = "16 word xor_t"

record xor_hashes_t =
  h :: "64 word"
  h0 :: "32 word"
  h1 :: "32 word"
  h2 :: "32 word"

text \<open>
  \<^verbatim>\<open>xor8_get_h0_h1_h2\<close> and \<^verbatim>\<open>xor16_get_h0_h1_h2\<close> have the same body. \<^verbatim>\<open>xor_reduce\<close>
  takes a \<^verbatim>\<open>uint32_t n\<close>, so the 64-bit \<^verbatim>\<open>blockLength\<close> is cut to 32 bits at the call;
  the sums \<^verbatim>\<open>xor_reduce(..) + blockLength\<close> are 64-bit and are cut to 32 bits when they
  are stored in the \<^verbatim>\<open>uint32_t\<close> fields.
\<close>

definition xor_get_h0_h1_h2 :: "64 word \<Rightarrow> 'c xor_t \<Rightarrow> xor_hashes_t" where
  "xor_get_h0_h1_h2 k filt =
     (let hash = xor_mix_split k (seed filt);
          r0 = (ucast hash :: 32 word);
          r1 = (ucast (xor_rotl64 hash 21) :: 32 word);
          r2 = (ucast (xor_rotl64 hash 42) :: 32 word)
      in \<lparr> h = hash,
           h0 = xor_reduce r0 (ucast (blockLength filt)),
           h1 = ucast ((ucast (xor_reduce r1 (ucast (blockLength filt))) :: 64 word)
                       + blockLength filt),
           h2 = ucast ((ucast (xor_reduce r2 (ucast (blockLength filt))) :: 64 word)
                       + 2 * blockLength filt) \<rparr>)"

definition xor8_get_h0_h1_h2 :: "64 word \<Rightarrow> xor8_t \<Rightarrow> xor_hashes_t" where
  "xor8_get_h0_h1_h2 = xor_get_h0_h1_h2"

definition xor16_get_h0_h1_h2 :: "64 word \<Rightarrow> xor16_t \<Rightarrow> xor_hashes_t" where
  "xor16_get_h0_h1_h2 = xor_get_h0_h1_h2"

record xor_h0h1h2_t =
  h0' :: "32 word"
  h1' :: "32 word"
  h2' :: "32 word"

definition xor_get_just_h0_h1_h2 :: "64 word \<Rightarrow> 'c xor_t \<Rightarrow> xor_h0h1h2_t" where
  "xor_get_just_h0_h1_h2 hash filt =
     (let r0 = (ucast hash :: 32 word);
          r1 = (ucast (xor_rotl64 hash 21) :: 32 word);
          r2 = (ucast (xor_rotl64 hash 42) :: 32 word)
      in \<lparr> h0' = xor_reduce r0 (ucast (blockLength filt)),
           h1' = ucast ((ucast (xor_reduce r1 (ucast (blockLength filt))) :: 64 word)
                        + blockLength filt),
           h2' = ucast ((ucast (xor_reduce r2 (ucast (blockLength filt))) :: 64 word)
                        + 2 * blockLength filt) \<rparr>)"

definition xor8_get_just_h0_h1_h2 :: "64 word \<Rightarrow> xor8_t \<Rightarrow> xor_h0h1h2_t" where
  "xor8_get_just_h0_h1_h2 = xor_get_just_h0_h1_h2"

definition xor16_get_just_h0_h1_h2 :: "64 word \<Rightarrow> xor16_t \<Rightarrow> xor_h0h1h2_t" where
  "xor16_get_just_h0_h1_h2 = xor_get_just_h0_h1_h2"

text \<open>
  \<^verbatim>\<open>xor8_contain\<close> and \<^verbatim>\<open>xor16_contain\<close>: the fingerprint is cut to the cell type when it
  is stored in \<^verbatim>\<open>f\<close>; the cells are promoted to \<^verbatim>\<open>int\<close> for \<^verbatim>\<open>^\<close> and the result is cut
  to the cell type again by \<^verbatim>\<open>^=\<close>, which is the exclusive or of the cell type.
\<close>

definition xor_contain :: "64 word \<Rightarrow> ('w::len) word xor_t \<Rightarrow> fault + bool" where
  "xor_contain key filt =
     (let hash = xor_mix_split key (seed filt);
          f = (ucast (xor_fingerprint hash) :: 'w word);
          r0 = (ucast hash :: 32 word);
          r1 = (ucast (xor_rotl64 hash 21) :: 32 word);
          r2 = (ucast (xor_rotl64 hash 42) :: 32 word);
          h0 = xor_reduce r0 (ucast (blockLength filt));
          h1 = (ucast ((ucast (xor_reduce r1 (ucast (blockLength filt))) :: 64 word)
                       + blockLength filt) :: 32 word);
          h2 = (ucast ((ucast (xor_reduce r2 (ucast (blockLength filt))) :: 64 word)
                       + 2 * blockLength filt) :: 32 word)
      in case fingerprints filt of
           None \<Rightarrow> Inl NullPointer
         | Some F \<Rightarrow>
             on_ok (array_get F (unat h0)) (\<lambda>a.
             on_ok (array_get F (unat h1)) (\<lambda>b.
             on_ok (array_get F (unat h2)) (\<lambda>c.
               Inr (f XOR (a XOR b XOR c) = 0)))))"

definition xor8_contain :: "64 word \<Rightarrow> xor8_t \<Rightarrow> fault + bool" where
  "xor8_contain = xor_contain"

definition xor16_contain :: "64 word \<Rightarrow> xor16_t \<Rightarrow> fault + bool" where
  "xor16_contain = xor_contain"


section \<open>Allocator\<close>

text \<open>
  \<^verbatim>\<open>size_t capacity = 32 + 1.23 * size\<close> is computed in \<^verbatim>\<open>double\<close>. The model takes
  \<^verbatim>\<open>double\<close> to be IEEE 754 binary64 with round-to-nearest-even, every operation rounded
  on its own: \<open>round53\<close> rounds a natural number to 53 significant bits. Values are
  kept as multiples of \<open>2 ^ -52\<close>, the unit in which the constant \<^verbatim>\<open>1.23\<close> is the integer
  \<open>5539427541665710\<close>. The conversion back to \<^verbatim>\<open>size_t\<close> truncates, and is undefined
  when the value does not fit into 64 bits.
\<close>

fun bitlen :: "nat \<Rightarrow> nat" where
  "bitlen n = (if n = 0 then 0 else Suc (bitlen (n div 2)))"

declare bitlen.simps [simp del]

definition round53 :: "nat \<Rightarrow> nat" where
  "round53 a =
     (let e = bitlen a - 53; q = a div 2 ^ e; r = a mod 2 ^ e
      in if 2 ^ e < 2 * r \<or> (2 * r = 2 ^ e \<and> odd q) then (q + 1) * 2 ^ e else q * 2 ^ e)"

definition xor_capacity :: "nat \<Rightarrow> fault + 64 word" where
  "xor_capacity sz =
     (let x = round53 sz;
          p = round53 (5539427541665710 * x);
          s = round53 (32 * 2 ^ 52 + p);
          c = s div 2 ^ 52
      in if c < 2 ^ 64 then Inr (word_of_nat c) else Inl ConversionRange)"

text \<open>
  \<^verbatim>\<open>malloc\<close> is an oracle: whether it returns a block, and what the cells of the block
  hold (the memory is not initialised). A block of \<open>bytes\<close> bytes holds
  \<open>bytes div cell\<close> cells of \<open>cell\<close> bytes.
\<close>

definition xor_malloc :: "bool \<times> (nat \<Rightarrow> 'a) \<Rightarrow> nat \<Rightarrow> 64 word \<Rightarrow> 'a list option" where
  "xor_malloc m cell bytes =
     (if fst m then Some (map (snd m) [0..<unat bytes div cell]) else None)"

definition xor8_allocate ::
  "bool \<times> (nat \<Rightarrow> 8 word) \<Rightarrow> 32 word \<Rightarrow> xor8_t \<Rightarrow> fault + bool \<times> xor8_t" where
  "xor8_allocate m sz filt =
     on_ok (xor_capacity (unat sz)) (\<lambda>capacity.
       let capacity = capacity div 3 * 3;
           filt = filt\<lparr>fingerprints := xor_malloc m 1 (capacity * 1)\<rparr>
       in if fingerprints filt \<noteq> None
          then Inr (True, filt\<lparr>blockLength := capacity div 3\<rparr>)
          else Inr (False, filt))"

definition xor16_allocate ::
  "bool \<times> (nat \<Rightarrow> 16 word) \<Rightarrow> 64 word \<Rightarrow> xor16_t \<Rightarrow> fault + bool \<times> xor16_t" where
  "xor16_allocate m sz filt =
     on_ok (xor_capacity (unat sz)) (\<lambda>capacity.
       let filt = filt\<lparr>blockLength := capacity div 3\<rparr>;
           capacity = capacity div 3 * 3;
           filt = filt\<lparr>fingerprints := xor_malloc m 2 (capacity * 2)\<rparr>
       in if fingerprints filt \<noteq> None
          then Inr (True, filt\<lparr>blockLength := capacity div 3\<rparr>)
          else Inr (False, filt))"

text \<open>
  \<^verbatim>\<open>sizeof(xor8_t)\<close> and \<^verbatim>\<open>sizeof(xor16_t)\<close>: two 64-bit fields and a 64-bit pointer.
\<close>

definition sizeof_xor8_t :: "64 word" where "sizeof_xor8_t = 24"
definition sizeof_xor16_t :: "64 word" where "sizeof_xor16_t = 24"

definition xor8_size_in_bytes :: "xor8_t \<Rightarrow> 64 word" where
  "xor8_size_in_bytes filt = 3 * blockLength filt * 1 + sizeof_xor8_t"

definition xor16_size_in_bytes :: "xor16_t \<Rightarrow> 64 word" where
  "xor16_size_in_bytes filt = 3 * blockLength filt * 2 + sizeof_xor16_t"

text \<open>
  What the comment at the \<^verbatim>\<open>fingerprints\<close> field says of an allocated filter: the pointer
  points to \<^verbatim>\<open>3*blockLength\<close> values.
\<close>

definition xor_allocated :: "'c xor_t \<Rightarrow> bool" where
  "xor_allocated filt =
     (case fingerprints filt of
        None \<Rightarrow> False
      | Some F \<Rightarrow> length F = 3 * unat (blockLength filt) \<and> blockLength filt \<noteq> 0)"

text \<open>
  \<^verbatim>\<open>xor8_free\<close> and \<^verbatim>\<open>xor16_free\<close>: the block goes back to the allocator, the pointer
  becomes \<^verbatim>\<open>NULL\<close> and the block length 0.
\<close>

definition xor8_free :: "xor8_t \<Rightarrow> xor8_t" where
  "xor8_free filt = filt\<lparr>fingerprints := None, blockLength := 0\<rparr>"

definition xor16_free :: "xor16_t \<Rightarrow> xor16_t" where
  "xor16_free filt = filt\<lparr>fingerprints := None, blockLength := 0\<rparr>"

section \<open>Constructor\<close>

record xor_xorset_t =
  xormask :: "64 word"
  count :: "64 word"

record xor_keyindex_t =
  hash :: "64 word"
  index :: "64 word"

text \<open>
  \<^verbatim>\<open>sets[i].xormask ^= hv; sets[i].count++\<close> and its inverse with \<^verbatim>\<open>count--\<close>.
\<close>

definition xor_slot_add :: "64 word \<Rightarrow> nat \<Rightarrow> xor_xorset_t list \<Rightarrow> fault + xor_xorset_t list" where
  "xor_slot_add hv i sets =
     on_ok (array_get sets i) (\<lambda>s.
       array_set sets i (s\<lparr>xormask := xormask s XOR hv, count := count s + 1\<rparr>))"

definition xor_slot_sub :: "64 word \<Rightarrow> nat \<Rightarrow> xor_xorset_t list \<Rightarrow> fault + xor_xorset_t list" where
  "xor_slot_sub hv i sets =
     on_ok (array_get sets i) (\<lambda>s.
       array_set sets i (s\<lparr>xormask := xormask s XOR hv, count := count s - 1\<rparr>))"

text \<open>
  \<^verbatim>\<open>Q\<close> and \<^verbatim>\<open>stack\<close> are buffers with a size cursor, \<^verbatim>\<open>Qsize\<close> and \<^verbatim>\<open>stack_size\<close>. Only
  cells below the cursor are read, so each is modelled by the list of its cells below
  the cursor, the last element on top. \<^verbatim>\<open>Q[Qsize++] = v\<close> is \<open>xor_push\<close>, which is out
  of bounds when the buffer of \<open>cap\<close> cells is full.
\<close>

definition xor_push :: "nat \<Rightarrow> 'a list \<Rightarrow> 'a \<Rightarrow> fault + 'a list" where
  "xor_push cap xs v = (if length xs < cap then Inr (xs @ [v]) else Inl OutOfBounds)"

text \<open>The first loop of an attempt, over the keys.\<close>

fun xor_count_keys ::
  "'c xor_t \<Rightarrow> 64 word list \<Rightarrow> xor_xorset_t list \<Rightarrow> fault + xor_xorset_t list" where
  "xor_count_keys filt [] sets = Inr sets"
| "xor_count_keys filt (key # keys) sets =
     (let hs = xor_get_h0_h1_h2 key filt
      in on_ok (xor_slot_add (h hs) (unat (h0 hs)) sets) (\<lambda>sets.
         on_ok (xor_slot_add (h hs) (unat (h1 hs)) sets) (\<lambda>sets.
         on_ok (xor_slot_add (h hs) (unat (h2 hs)) sets) (\<lambda>sets.
           xor_count_keys filt keys sets))))"

text \<open>The scan for slots with a count of one, over the indices below \<^verbatim>\<open>arrayLength\<close>.\<close>

fun xor_scan ::
  "nat list \<Rightarrow> xor_xorset_t list \<Rightarrow> nat \<Rightarrow> 64 word list \<Rightarrow> fault + 64 word list" where
  "xor_scan [] sets qcap Q = Inr Q"
| "xor_scan (i # is) sets qcap Q =
     on_ok (array_get sets i) (\<lambda>s.
       if count s = 1
       then on_ok (xor_push qcap Q (word_of_nat i)) (\<lambda>Q. xor_scan is sets qcap Q)
       else xor_scan is sets qcap Q)"

text \<open>\<^verbatim>\<open>if (sets[hi].count == 1) Q[Qsize++] = hi\<close>.\<close>

definition xor_push_if_one ::
  "xor_xorset_t list \<Rightarrow> 32 word \<Rightarrow> nat \<Rightarrow> 64 word list \<Rightarrow> fault + 64 word list" where
  "xor_push_if_one sets hi qcap Q =
     on_ok (array_get sets (unat hi)) (\<lambda>s.
       if count s = 1 then xor_push qcap Q (ucast hi) else Inr Q)"

text \<open>One round of the peeling loop \<^verbatim>\<open>while (Qsize > 0)\<close>, entered with \<open>Q \<noteq> []\<close>.\<close>

definition xor_peel_step ::
  "'c xor_t \<Rightarrow> nat \<Rightarrow> nat \<Rightarrow> xor_xorset_t list \<times> 64 word list \<times> xor_keyindex_t list
     \<Rightarrow> fault + xor_xorset_t list \<times> 64 word list \<times> xor_keyindex_t list" where
  "xor_peel_step filt qcap scap st =
     (case st of (sets, Q, stack) \<Rightarrow>
        let index = last Q; Q = butlast Q
        in on_ok (array_get sets (unat index)) (\<lambda>s.
             if count s = 0 then Inr (sets, Q, stack)
             else
               let hash = xormask s
               in on_ok (xor_push scap stack \<lparr>hash = hash, index = index\<rparr>) (\<lambda>stack.
                    let hashes = xor_get_just_h0_h1_h2 hash filt
                    in on_ok (xor_slot_sub hash (unat (h0' hashes)) sets) (\<lambda>sets.
                       on_ok (xor_slot_sub hash (unat (h1' hashes)) sets) (\<lambda>sets.
                       on_ok (xor_slot_sub hash (unat (h2' hashes)) sets) (\<lambda>sets.
                       on_ok (xor_push_if_one sets (h0' hashes) qcap Q) (\<lambda>Q.
                       on_ok (xor_push_if_one sets (h1' hashes) qcap Q) (\<lambda>Q.
                       on_ok (xor_push_if_one sets (h2' hashes) qcap Q) (\<lambda>Q.
                         Inr (sets, Q, stack))))))))))"

lemma on_ok_Inr: "on_ok m f = Inr y \<longleftrightarrow> (\<exists>x. m = Inr x \<and> f x = Inr y)"
  by (cases m) (simp_all add: on_ok_def)

lemma xor_push_Inr: "xor_push cap xs v = Inr ys \<longleftrightarrow> length xs < cap \<and> ys = xs @ [v]"
  by (auto simp: xor_push_def)

lemma xor_peel_step_cases:
  assumes "xor_peel_step filt qcap scap (sets, Q, stack) = Inr (sets', Q', stack')"
  shows "(sets' = sets \<and> Q' = butlast Q \<and> stack' = stack)
       \<or> (length stack < scap \<and> (\<exists>ki. stack' = stack @ [ki]))"
  using assms
  by (auto simp: xor_peel_step_def Let_def on_ok_Inr xor_push_Inr split: if_splits)

text \<open>
  The peeling loop. Every round either drops an entry of \<open>Q\<close> and leaves the stack as
  it is, or writes one more cell of the stack, which has \<open>scap\<close> cells; so the loop
  terminates on every input, with a fault when the stack would overflow.
\<close>

function xor_peel ::
  "'c xor_t \<Rightarrow> nat \<Rightarrow> nat \<Rightarrow> xor_xorset_t list \<Rightarrow> 64 word list \<Rightarrow> xor_keyindex_t list
     \<Rightarrow> fault + xor_keyindex_t list" where
  "xor_peel filt qcap scap sets Q stack =
     (if Q = [] then Inr stack
      else case xor_peel_step filt qcap scap (sets, Q, stack) of
             Inl e \<Rightarrow> Inl e
           | Inr (sets', Q', stack') \<Rightarrow> xor_peel filt qcap scap sets' Q' stack')"
  by pat_completeness auto
termination
proof (relation "measures [\<lambda>(filt, qcap, scap, sets, Q, stack). scap - length stack,
                           \<lambda>(filt, qcap, scap, sets, Q, stack). length Q]", goal_cases)
  case 1
  show ?case by simp
next
  case (2 filt qcap scap sets Q stack x2 x y xa ya)
  then have "xor_peel_step filt qcap scap (sets, Q, stack) = Inr (x, xa, ya)" by simp
  from xor_peel_step_cases [OF this] \<open>Q \<noteq> []\<close>
  show ?case by auto
qed

declare xor_peel.simps [simp del]

text \<open>
  One attempt with the seed that is in the filter: the body of \<^verbatim>\<open>while (true)\<close> up to
  the test \<^verbatim>\<open>stack_size == size\<close>. The three scratch blocks were requested with
  \<^verbatim>\<open>arrayLength * sizeof(xor_xorset_t)\<close>, \<^verbatim>\<open>arrayLength * sizeof(size_t)\<close> and
  \<^verbatim>\<open>size * sizeof(xor_keyindex_t)\<close> bytes, products of \<^verbatim>\<open>size_t\<close> that wrap around;
  the element sizes are 16, 8 and 16. \<^verbatim>\<open>memset\<close> clears as many bytes as \<^verbatim>\<open>sets\<close> was
  requested with. The array \<^verbatim>\<open>keys\<close> is the list \<open>keys\<close>: reading \<^verbatim>\<open>keys[i]\<close> for
  \<^verbatim>\<open>i < size\<close> is out of bounds when the list is shorter than \<^verbatim>\<open>size\<close>.
\<close>

definition xor_attempt :: "'c xor_t \<Rightarrow> 64 word list \<Rightarrow> 64 word \<Rightarrow> fault + xor_keyindex_t list" where
  "xor_attempt filt keys sz =
     (let arrayLength = blockLength filt * 3;
          sets = replicate (unat (arrayLength * 16) div 16) \<lparr>xormask = 0, count = 0\<rparr>;
          qcap = unat (arrayLength * 8) div 8;
          scap = unat (sz * 16) div 16
      in if length keys < unat sz then Inl OutOfBounds
         else
           on_ok (xor_count_keys filt (take (unat sz) keys) sets) (\<lambda>sets.
           on_ok (xor_scan [0..<unat arrayLength] sets qcap []) (\<lambda>Q.
             xor_peel filt qcap scap sets Q [])))"

text \<open>
  The retry loop \<^verbatim>\<open>while (true)\<close>. Nothing bounds the number of attempts, so the loop is
  a partial function: \<open>None\<close> is the loop that never ends.
\<close>

partial_function (option) xor_populate_loop ::
  "'c xor_t \<Rightarrow> 64 word list \<Rightarrow> 64 word \<Rightarrow> 64 word
     \<Rightarrow> (fault + 'c xor_t \<times> xor_keyindex_t list) option" where
  "xor_populate_loop filt keys sz rng_counter =
     (case xor_attempt filt keys sz of
        Inl e \<Rightarrow> Some (Inl e)
      | Inr stack \<Rightarrow>
          if word_of_nat (length stack) = sz then Some (Inr (filt, stack))
          else
            (case xor_rng_splitmix64 rng_counter of
               (r, rng_counter') \<Rightarrow>
                 xor_populate_loop (filt\<lparr>seed := r\<rparr>) keys sz rng_counter'))"

declare xor_populate_loop.simps [code]

text \<open>
  The assignment loop \<^verbatim>\<open>while (stack_size > 0)\<close>, which takes the entries from the top
  of the stack: the list is the stack reversed. The fingerprint is a \<^verbatim>\<open>uint64_t\<close>, the
  cells are promoted for \<^verbatim>\<open>^\<close>, and the result is cut to the cell type by the store.
\<close>

fun xor_assign :: "('w::len) word xor_t \<Rightarrow> xor_keyindex_t list \<Rightarrow> fault + 'w word xor_t" where
  "xor_assign filt [] = Inr filt"
| "xor_assign filt (ki # stack) =
     (case fingerprints filt of
        None \<Rightarrow> Inl NullPointer
      | Some F \<Rightarrow>
          let hashes = xor_get_just_h0_h1_h2 (hash ki) filt
          in on_ok (array_set F (unat (index ki)) 0) (\<lambda>F.
             on_ok (array_get F (unat (h0' hashes))) (\<lambda>a.
             on_ok (array_get F (unat (h1' hashes))) (\<lambda>b.
             on_ok (array_get F (unat (h2' hashes))) (\<lambda>c.
             on_ok (array_set F (unat (index ki))
                      (ucast (xor_fingerprint (hash ki) XOR ucast a XOR ucast b XOR ucast c))) (\<lambda>F.
               xor_assign (filt\<lparr>fingerprints := Some F\<rparr>) stack))))))"

text \<open>
  \<^verbatim>\<open>xor8_populate\<close> and \<^verbatim>\<open>xor16_populate\<close>. The argument \<open>m\<close> says which of the three
  scratch requests \<^verbatim>\<open>malloc\<close> grants (for \<^verbatim>\<open>sets\<close>, \<^verbatim>\<open>Q\<close> and \<^verbatim>\<open>stack\<close>). The result is
  the returned boolean, the filter as the call leaves it, and the scratch blocks that
  were obtained and not passed to \<^verbatim>\<open>free\<close>; \<^verbatim>\<open>free(NULL)\<close> does nothing.
\<close>

datatype scratch = Sets | Queue | Stack

definition xor_free :: "scratch option \<Rightarrow> scratch list \<Rightarrow> scratch list" where
  "xor_free p held = (case p of None \<Rightarrow> held | Some b \<Rightarrow> removeAll b held)"

definition xor_populate ::
  "bool \<times> bool \<times> bool \<Rightarrow> 64 word list \<Rightarrow> 64 word \<Rightarrow> ('w::len) word xor_t
     \<Rightarrow> (fault + bool \<times> 'w word xor_t \<times> scratch list) option" where
  "xor_populate m keys sz filt =
     (case xor_rng_splitmix64 1 of
        (r, rng_counter) \<Rightarrow>
          let filt = filt\<lparr>seed := r\<rparr>;
              sets = (if fst m then Some Sets else None);
              Q = (if fst (snd m) then Some Queue else None);
              stack = (if snd (snd m) then Some Stack else None);
              held = List.map_filter id [sets, Q, stack]
          in if sets = None \<or> Q = None \<or> stack = None
             then Some (Inr (False, filt, xor_free stack (xor_free Q (xor_free sets held))))
             else
               (case xor_populate_loop filt keys sz rng_counter of
                  None \<Rightarrow> None
                | Some (Inl e) \<Rightarrow> Some (Inl e)
                | Some (Inr (filt, stack')) \<Rightarrow>
                    (case xor_assign filt (rev stack') of
                       Inl e \<Rightarrow> Some (Inl e)
                     | Inr filt \<Rightarrow>
                         Some (Inr (True, filt,
                                 xor_free stack (xor_free Q (xor_free sets held)))))))"

definition xor8_populate ::
  "bool \<times> bool \<times> bool \<Rightarrow> 64 word list \<Rightarrow> 64 word \<Rightarrow> xor8_t
     \<Rightarrow> (fault + bool \<times> xor8_t \<times> scratch list) option" where
  "xor8_populate = xor_populate"

definition xor16_populate ::
  "bool \<times> bool \<times> bool \<Rightarrow> 64 word list \<Rightarrow> 64 word \<Rightarrow> xor16_t
     \<Rightarrow> (fault + bool \<times> xor16_t \<times> scratch list) option" where
  "xor16_populate = xor_populate"

section \<open>The specification's formulas\<close>

text \<open>
  The Murmur3 finalizer in the words of the specification, on natural numbers with
  the arithmetic modulo \<open>2 ^ 64\<close> written out.
\<close>

definition spec_murmur64 :: "nat \<Rightarrow> nat" where
  "spec_murmur64 x =
     (let x = x XOR x div 2 ^ 33;
          x = x * 0xff51afd7ed558ccd mod 2 ^ 64;
          x = x XOR x div 2 ^ 33;
          x = x * 0xc4ceb9fe1a85ec53 mod 2 ^ 64;
          x = x XOR x div 2 ^ 33
      in x)"

text \<open>
  The slot index of block \<open>i\<close> as the code computes it, on natural numbers: the block
  length enters the product with its low 32 bits, and the sum is cut to 32 bits.
\<close>

definition slot_cut32 :: "nat \<Rightarrow> nat \<Rightarrow> nat \<Rightarrow> nat" where
  "slot_cut32 i r n = (r * (n mod 2 ^ 32) div 2 ^ 32 + i * n) mod 2 ^ 32"

text \<open>The slot index of block \<open>i\<close> in the words of the specification.\<close>

definition spec_slot :: "nat \<Rightarrow> nat \<Rightarrow> nat \<Rightarrow> nat" where
  "spec_slot i r n = r * n div 2 ^ 32 + i * n"


text \<open>
  The block length in the words of the specification, \<open>floor((32 + 1.23 * n) / 3)\<close>.
\<close>

definition spec_block_length :: "nat \<Rightarrow> nat" where
  "spec_block_length n = (3200 + 123 * n) div 300"


section \<open>Example filters\<close>

text \<open>
  \<open>example8\<close> is what \<^verbatim>\<open>xor8_populate\<close> makes of the keys 1, 2, 3 in a zeroed filter of
  block length 2, \<open>example16\<close> what \<^verbatim>\<open>xor16_populate\<close> makes of the keys 5, 7, 11 in a
  zeroed filter of block length 3. \<open>wrap_filter\<close> has the first seed that a
  construction tries and a block length with \<open>2 ^ 32 < 3 * blockLength\<close>.
\<close>

definition example8 :: xor8_t where
  "example8 = \<lparr>seed = 10451216379200822465, blockLength = 2,
                fingerprints = Some [0, 187, 0, 0, 113, 3]\<rparr>"

definition example16 :: xor16_t where
  "example16 = \<lparr>seed = 10451216379200822465, blockLength = 3,
                 fingerprints = Some [0, 57379, 0, 0, 0, 0, 8390, 0, 55214]\<rparr>"

definition wrap_filter :: xor8_t where
  "wrap_filter = \<lparr>seed = 10451216379200822465, blockLength = 1500000000,
                   fingerprints = None\<rparr>"

text \<open>
  The inputs of the two worked constructions: zeroed filters of block length 2 and 3,
  before the call and with the first seed in place.
\<close>

definition run8_in :: xor8_t where
  "run8_in = \<lparr>seed = 0, blockLength = 2, fingerprints = Some [0, 0, 0, 0, 0, 0]\<rparr>"

definition run8_seeded :: xor8_t where
  "run8_seeded = \<lparr>seed = 10451216379200822465, blockLength = 2, fingerprints = Some [0, 0, 0, 0, 0, 0]\<rparr>"

definition run16_in :: xor16_t where
  "run16_in = \<lparr>seed = 0, blockLength = 3, fingerprints = Some [0, 0, 0, 0, 0, 0, 0, 0, 0]\<rparr>"

definition run16_seeded :: xor16_t where
  "run16_seeded = \<lparr>seed = 10451216379200822465, blockLength = 3, fingerprints = Some [0, 0, 0, 0, 0, 0, 0, 0, 0]\<rparr>"

text \<open>
  A filter before any allocation, and the filter that \<^verbatim>\<open>xor8_allocate\<close> returns for 0 elements
  when \<^verbatim>\<open>malloc\<close> hands out memory in which every byte is 1.
\<close>

definition unallocated8 :: xor8_t where
  "unallocated8 = \<lparr>seed = 0, blockLength = 0, fingerprints = None\<rparr>"

definition garbage8 :: xor8_t where
  "garbage8 = \<lparr>seed = 0, blockLength = 10, fingerprints = Some (replicate 30 1)\<rparr>"

definition unallocated16 :: xor16_t where
  "unallocated16 = \<lparr>seed = 0, blockLength = 0, fingerprints = None\<rparr>"

section \<open>Properties of the hash kernel\<close>

lemma unat_ucast_up: "unat (ucast (a :: 32 word) :: 64 word) = unat a"
  by (simp add: unsigned_ucast_eq take_bit_nat_eq_self_iff)
    (rule less_trans [OF unsigned_less], simp)

lemma unat_ucast_down: "unat (ucast (b :: 64 word) :: 32 word) = unat b mod 2 ^ 32"
  by (simp add: unsigned_ucast_eq take_bit_eq_mod)

lemma unat_lt_2p32: "unat (a :: 32 word) < 2 ^ 32"
  using unsigned_less [of a] by simp

lemma unat_lt_2p64: "unat (a :: 64 word) < 2 ^ 64"
  using unsigned_less [of a] by simp

lemma unat_xor_reduce: "unat (xor_reduce a n) = unat a * unat n div 2 ^ 32"
proof -
  have lt: "unat a * unat n < 2 ^ 64"
  proof -
    have "unat a * unat n < 2 ^ 32 * 2 ^ 32"
      by (intro mult_strict_mono unat_lt_2p32) simp_all
    then show ?thesis by simp
  qed
  have m: "unat ((ucast a :: 64 word) * ucast n) = unat a * unat n"
    using lt by (simp add: unat_word_ariths unat_ucast_up)
  have "unat (drop_bit 32 ((ucast a :: 64 word) * ucast n)) = unat a * unat n div 2 ^ 32"
    by (subst unat_drop_bit_eq) (simp add: m drop_bit_eq_div)
  moreover have "unat a * unat n div 2 ^ 32 < 2 ^ 32"
    using lt by (simp add: less_mult_imp_div_less)
  ultimately show ?thesis
    by (simp add: xor_reduce_def unat_ucast_down)
qed

lemma reduce_less: "0 < n \<Longrightarrow> r < 2 ^ 32 \<Longrightarrow> r * n div 2 ^ 32 < n" for r n :: nat
proof -
  assume "0 < n" "r < 2 ^ 32"
  then have "r * n < 2 ^ 32 * n" by simp
  then show ?thesis by (simp add: less_mult_imp_div_less mult.commute)
qed

lemma unat_slot1:
  "unat (ucast ((ucast (x :: 32 word) :: 64 word) + b) :: 32 word) = (unat x + unat b) mod 2 ^ 32"
proof -
  have "unat (ucast ((ucast x :: 64 word) + b) :: 32 word) = (unat x + unat b) mod 2 ^ 64 mod 2 ^ 32"
    by (simp add: unat_ucast_down unat_word_ariths unat_ucast_up)
  also have "\<dots> = (unat x + unat b) mod 2 ^ 32"
    by (simp add: mod_mod_cancel)
  finally show ?thesis .
qed

lemma unat_slot2:
  "unat (ucast ((ucast (x :: 32 word) :: 64 word) + 2 * b) :: 32 word) = (unat x + 2 * unat b) mod 2 ^ 32"
proof -
  have "unat (ucast ((ucast x :: 64 word) + 2 * b) :: 32 word)
          = (unat x + 2 * unat b mod 2 ^ 64) mod 2 ^ 64 mod 2 ^ 32"
    by (simp add: unat_ucast_down unat_word_ariths unat_ucast_up)
  also have "\<dots> = (unat x + 2 * unat b) mod 2 ^ 32"
    by (simp add: mod_mod_cancel mod_simps)
  finally show ?thesis .
qed

lemma slot_cut32_spec:
  assumes "3 * n \<le> 2 ^ 32" and "r < 2 ^ 32" and "i \<le> 2"
  shows "slot_cut32 i r n = spec_slot i r n"
proof (cases "n = 0")
  case True
  then show ?thesis by (simp add: slot_cut32_def spec_slot_def)
next
  case False
  then have "r * n div 2 ^ 32 < n" using assms(2) by (intro reduce_less) simp_all
  moreover have "i * n \<le> 2 * n" using assms(3) by simp
  ultimately have "r * n div 2 ^ 32 + i * n < 2 ^ 32" using assms(1) by linarith
  moreover have "n mod 2 ^ 32 = n" using assms(1) False by simp
  ultimately show ?thesis by (simp add: slot_cut32_def spec_slot_def)
qed

lemma spec_slot_range:
  assumes "0 < n" and "r < 2 ^ 32"
  shows "i * n \<le> spec_slot i r n \<and> spec_slot i r n < (i + 1) * n"
  using reduce_less [OF assms] by (simp add: spec_slot_def)

lemma slot_cut32_in_array:
  assumes "0 < n" and "r < 2 ^ 32" and "i \<le> 2"
  shows "slot_cut32 i r n < 3 * n"
proof (cases "3 * n \<le> 2 ^ 32")
  case True
  have "spec_slot i r n < (i + 1) * n" using spec_slot_range [OF assms(1,2)] by simp
  also have "\<dots> \<le> 3 * n" using assms(3) by simp
  finally show ?thesis using slot_cut32_spec [OF True assms(2,3)] by simp
next
  case False
  have "slot_cut32 i r n < 2 ^ 32" by (simp add: slot_cut32_def)
  with False show ?thesis by linarith
qed

lemma unat_slots:
  fixes bl :: "64 word" and r :: "32 word"
  shows "unat (xor_reduce r (ucast bl)) = slot_cut32 0 (unat r) (unat bl)"
    and "unat (ucast ((ucast (xor_reduce r (ucast bl)) :: 64 word) + bl) :: 32 word)
           = slot_cut32 1 (unat r) (unat bl)"
    and "unat (ucast ((ucast (xor_reduce r (ucast bl)) :: 64 word) + 2 * bl) :: 32 word)
           = slot_cut32 2 (unat r) (unat bl)"
proof -
  have lt: "unat r * (unat bl mod 2 ^ 32) div 2 ^ 32 < 2 ^ 32"
  proof -
    have "unat r * (unat bl mod 2 ^ 32) < 2 ^ 32 * 2 ^ 32"
      by (intro mult_strict_mono unat_lt_2p32) simp_all
    then show ?thesis by (simp add: less_mult_imp_div_less)
  qed
  show "unat (xor_reduce r (ucast bl)) = slot_cut32 0 (unat r) (unat bl)"
    using lt by (simp add: unat_xor_reduce unat_ucast_down slot_cut32_def)
  show "unat (ucast ((ucast (xor_reduce r (ucast bl)) :: 64 word) + bl) :: 32 word)
           = slot_cut32 1 (unat r) (unat bl)"
    by (subst unat_slot1) (simp add: unat_xor_reduce unat_ucast_down slot_cut32_def)
  show "unat (ucast ((ucast (xor_reduce r (ucast bl)) :: 64 word) + 2 * bl) :: 32 word)
           = slot_cut32 2 (unat r) (unat bl)"
    by (subst unat_slot2) (simp add: unat_xor_reduce unat_ucast_down slot_cut32_def)
qed


lemma shift_amounts:
  "unat ((21 :: 32 word) AND 63) = 21" "unat ((- 21 :: 32 word) AND 63) = 43"
  "unat ((42 :: 32 word) AND 63) = 42" "unat ((- 42 :: 32 word) AND 63) = 22"
  by simp_all

lemma xor_rotl64_21: "xor_rotl64 x 21 = push_bit 21 x OR drop_bit 43 x"
  by (simp only: xor_rotl64_def shift_amounts)

lemma xor_rotl64_42: "xor_rotl64 x 42 = push_bit 42 x OR drop_bit 22 x"
  by (simp only: xor_rotl64_def shift_amounts)

lemma rot_index:
  "n < 64 \<Longrightarrow> (n + 43) mod 64 = (if 21 \<le> n then n - 21 else n + 43)"
  "n < 64 \<Longrightarrow> (n + 22) mod 64 = (if 42 \<le> n then n - 42 else n + 22)" for n :: nat
  by (auto simp: mod_if le_mod_geq)

lemma xor_rotl64_21_rotl: "xor_rotl64 x 21 = word_rotl 21 x"
proof (rule bit_word_eqI)
  fix n assume "n < LENGTH(64)"
  then have n: "n < 64" by simp
  show "bit (xor_rotl64 x 21) n = bit (word_rotl 21 x) n"
    using n by (auto simp: xor_rotl64_21 bit_or_iff bit_push_bit_iff bit_drop_bit_eq
        bit_word_rotl_iff rot_index add.commute dest: bit_imp_le_length)
qed

lemma xor_rotl64_42_rotl: "xor_rotl64 x 42 = word_rotl 42 x"
proof (rule bit_word_eqI)
  fix n assume "n < LENGTH(64)"
  then have n: "n < 64" by simp
  show "bit (xor_rotl64 x 42) n = bit (word_rotl 42 x) n"
    using n by (auto simp: xor_rotl64_42 bit_or_iff bit_push_bit_iff bit_drop_bit_eq
        bit_word_rotl_iff rot_index add.commute dest: bit_imp_le_length)
qed

lemma unat_xor_shift: "unat (x XOR drop_bit n x) = unat x XOR unat x div 2 ^ n" for x :: "64 word"
  by (simp add: unsigned_xor_eq unat_drop_bit_eq) (simp add: drop_bit_eq_div)

lemma unat_murmur64: "unat (xor_murmur64 x) = spec_murmur64 (unat x)"
  by (simp add: xor_murmur64_def spec_murmur64_def Let_def unat_xor_shift unat_word_ariths)

lemma get_fields:
  "h (xor_get_h0_h1_h2 k filt) = xor_murmur64 (k + seed filt)"
  "h0 (xor_get_h0_h1_h2 k filt)
     = xor_reduce (ucast (h (xor_get_h0_h1_h2 k filt))) (ucast (blockLength filt))"
  "h1 (xor_get_h0_h1_h2 k filt)
     = ucast ((ucast (xor_reduce (ucast (word_rotl 21 (h (xor_get_h0_h1_h2 k filt))))
                 (ucast (blockLength filt))) :: 64 word) + blockLength filt)"
  "h2 (xor_get_h0_h1_h2 k filt)
     = ucast ((ucast (xor_reduce (ucast (word_rotl 42 (h (xor_get_h0_h1_h2 k filt))))
                 (ucast (blockLength filt))) :: 64 word) + 2 * blockLength filt)"
  by (simp_all add: xor_get_h0_h1_h2_def Let_def xor_mix_split_def xor_rotl64_21_rotl xor_rotl64_42_rotl)

lemma unat_get_slots:
  "unat (h0 (xor_get_h0_h1_h2 k filt))
     = slot_cut32 0 (unat (h (xor_get_h0_h1_h2 k filt)) mod 2 ^ 32) (unat (blockLength filt))"
  "unat (h1 (xor_get_h0_h1_h2 k filt))
     = slot_cut32 1 (unat (word_rotl 21 (h (xor_get_h0_h1_h2 k filt))) mod 2 ^ 32) (unat (blockLength filt))"
  "unat (h2 (xor_get_h0_h1_h2 k filt))
     = slot_cut32 2 (unat (word_rotl 42 (h (xor_get_h0_h1_h2 k filt))) mod 2 ^ 32) (unat (blockLength filt))"
  by (simp_all only: get_fields(2-4) unat_slots) (simp_all only: unat_ucast_down)

lemma get_slots_in_array:
  assumes "blockLength filt \<noteq> 0"
  shows "unat (h0 (xor_get_h0_h1_h2 k filt)) < 3 * unat (blockLength filt)"
    and "unat (h1 (xor_get_h0_h1_h2 k filt)) < 3 * unat (blockLength filt)"
    and "unat (h2 (xor_get_h0_h1_h2 k filt)) < 3 * unat (blockLength filt)"
proof -
  have pos: "0 < unat (blockLength filt)" using assms by (simp add: unat_gt_0)
  show "unat (h0 (xor_get_h0_h1_h2 k filt)) < 3 * unat (blockLength filt)"
    by (simp only: unat_get_slots) (rule slot_cut32_in_array [OF pos], simp_all)
  show "unat (h1 (xor_get_h0_h1_h2 k filt)) < 3 * unat (blockLength filt)"
    by (simp only: unat_get_slots) (rule slot_cut32_in_array [OF pos], simp_all)
  show "unat (h2 (xor_get_h0_h1_h2 k filt)) < 3 * unat (blockLength filt)"
    by (simp only: unat_get_slots) (rule slot_cut32_in_array [OF pos], simp_all)
qed

lemma xor_contain_unfold:
  assumes "fingerprints filt = Some F"
  shows "xor_contain key filt =
           on_ok (array_get F (unat (h0 (xor_get_h0_h1_h2 key filt)))) (\<lambda>a.
           on_ok (array_get F (unat (h1 (xor_get_h0_h1_h2 key filt)))) (\<lambda>b.
           on_ok (array_get F (unat (h2 (xor_get_h0_h1_h2 key filt)))) (\<lambda>c.
             Inr (ucast (xor_fingerprint (h (xor_get_h0_h1_h2 key filt))) XOR (a XOR b XOR c) = 0))))"
  by (simp add: xor_contain_def xor_get_h0_h1_h2_def Let_def assms)

lemma xor_eq_0_iff: "a XOR b = 0 \<longleftrightarrow> a = b" for a b :: "'w::len word"
  by (metis xor.right_neutral xor.assoc xor_self_eq)

lemma xor_contain_allocated:
  fixes filt :: "('w::len) word xor_t"
  assumes "xor_allocated filt" and "fingerprints filt = Some F"
  shows "xor_contain key filt =
           Inr (ucast (xor_fingerprint (h (xor_get_h0_h1_h2 key filt)))
                  = F ! unat (h0 (xor_get_h0_h1_h2 key filt))
                    XOR F ! unat (h1 (xor_get_h0_h1_h2 key filt))
                    XOR F ! unat (h2 (xor_get_h0_h1_h2 key filt)))"
proof -
  from assms have len: "length F = 3 * unat (blockLength filt)" and nz: "blockLength filt \<noteq> 0"
    by (simp_all add: xor_allocated_def)
  show ?thesis
    using get_slots_in_array [OF nz, of key]
    by (simp add: xor_contain_unfold [OF assms(2)] array_get_def on_ok_def len xor_eq_0_iff)
qed

lemmas hash_eval =
  xor_get_h0_h1_h2_def xor_mix_split_def xor_murmur64_def xor_rotl64_def xor_reduce_def
  xor_fingerprint_def Let_def

section \<open>The peeling invariant\<close>

text \<open>
  \<open>slots filt hv\<close> are the three slot indices of a hash. For a list \<open>H\<close> of hashes,
  \<open>occ filt H i\<close> counts the slot indices of the hashes in \<open>H\<close> that are \<open>i\<close>, and
  \<open>xm filt H i\<close> is the exclusive or of the hashes that have \<open>i\<close> among their slots an odd
  number of times. \<open>rep filt H sets\<close> says that \<^verbatim>\<open>sets\<close> holds these two for every slot.
\<close>

definition slots :: "'c xor_t \<Rightarrow> 64 word \<Rightarrow> nat list" where
  "slots filt hv =
     [unat (h0' (xor_get_just_h0_h1_h2 hv filt)),
      unat (h1' (xor_get_just_h0_h1_h2 hv filt)),
      unat (h2' (xor_get_just_h0_h1_h2 hv filt))]"

definition par :: "64 word \<Rightarrow> nat list \<Rightarrow> nat \<Rightarrow> 64 word" where
  "par hv ss i = (if odd (count_list ss i) then hv else 0)"

fun occ :: "'c xor_t \<Rightarrow> 64 word list \<Rightarrow> nat \<Rightarrow> nat" where
  "occ filt [] i = 0"
| "occ filt (hv # H) i = count_list (slots filt hv) i + occ filt H i"

fun xm :: "'c xor_t \<Rightarrow> 64 word list \<Rightarrow> nat \<Rightarrow> 64 word" where
  "xm filt [] i = 0"
| "xm filt (hv # H) i = par hv (slots filt hv) i XOR xm filt H i"

definition rep :: "'c xor_t \<Rightarrow> 64 word list \<Rightarrow> xor_xorset_t list \<Rightarrow> bool" where
  "rep filt H sets \<longleftrightarrow>
     (\<forall>i < length sets. count (sets ! i) = word_of_nat (occ filt H i) \<and> xormask (sets ! i) = xm filt H i)"

lemma get_just_fields:
  "h0 (xor_get_h0_h1_h2 k filt) = h0' (xor_get_just_h0_h1_h2 (h (xor_get_h0_h1_h2 k filt)) filt)"
  "h1 (xor_get_h0_h1_h2 k filt) = h1' (xor_get_just_h0_h1_h2 (h (xor_get_h0_h1_h2 k filt)) filt)"
  "h2 (xor_get_h0_h1_h2 k filt) = h2' (xor_get_just_h0_h1_h2 (h (xor_get_h0_h1_h2 k filt)) filt)"
  by (simp_all add: xor_get_h0_h1_h2_def xor_get_just_h0_h1_h2_def Let_def)

lemma array_get_Inr: "array_get xs i = Inr x \<longleftrightarrow> i < length xs \<and> x = xs ! i"
  by (auto simp: array_get_def)

lemma array_set_Inr: "array_set xs i v = Inr ys \<longleftrightarrow> i < length xs \<and> ys = xs[i := v]"
  by (auto simp: array_set_def)

lemma xor_slot_add_Inr:
  "xor_slot_add hv i sets = Inr sets' \<longleftrightarrow>
     i < length sets \<and>
     sets' = sets[i := (sets ! i)\<lparr>xormask := xormask (sets ! i) XOR hv, count := count (sets ! i) + 1\<rparr>]"
  by (auto simp: xor_slot_add_def on_ok_Inr array_get_Inr array_set_Inr)

lemma xor_slot_sub_Inr:
  "xor_slot_sub hv i sets = Inr sets' \<longleftrightarrow>
     i < length sets \<and>
     sets' = sets[i := (sets ! i)\<lparr>xormask := xormask (sets ! i) XOR hv, count := count (sets ! i) - 1\<rparr>]"
  by (auto simp: xor_slot_sub_def on_ok_Inr array_get_Inr array_set_Inr)

text \<open>The effect of the updates of one key on the accumulators.\<close>

definition add_eff :: "64 word \<Rightarrow> nat list \<Rightarrow> xor_xorset_t list \<Rightarrow> xor_xorset_t list \<Rightarrow> bool" where
  "add_eff hv ss sets s' \<longleftrightarrow>
     length s' = length sets \<and> (\<forall>a \<in> set ss. a < length sets) \<and>
     (\<forall>i < length sets.
        count (s' ! i) = count (sets ! i) + word_of_nat (count_list ss i)
      \<and> xormask (s' ! i) = xormask (sets ! i) XOR par hv ss i)"

definition sub_eff :: "64 word \<Rightarrow> nat list \<Rightarrow> xor_xorset_t list \<Rightarrow> xor_xorset_t list \<Rightarrow> bool" where
  "sub_eff hv ss sets s' \<longleftrightarrow>
     length s' = length sets \<and> (\<forall>a \<in> set ss. a < length sets) \<and>
     (\<forall>i < length sets.
        count (s' ! i) = count (sets ! i) - word_of_nat (count_list ss i)
      \<and> xormask (s' ! i) = xormask (sets ! i) XOR par hv ss i)"

lemma xor_cancel_right: "(x XOR a) XOR a = x" for x a :: "64 word"
  by (simp add: xor.assoc)

lemma add_eff_Nil: "add_eff hv [] sets sets"
  by (simp add: add_eff_def par_def)

lemma sub_eff_Nil: "sub_eff hv [] sets sets"
  by (simp add: sub_eff_def par_def)

lemma add_eff_step:
  assumes "add_eff hv ss sets s1" and "xor_slot_add hv a s1 = Inr s2"
  shows "add_eff hv (ss @ [a]) sets s2"
  using assms
  by (auto simp: add_eff_def xor_slot_add_Inr nth_list_update par_def xor_cancel_right xor.assoc)

lemma sub_eff_step:
  assumes "sub_eff hv ss sets s1" and "xor_slot_sub hv a s1 = Inr s2"
  shows "sub_eff hv (ss @ [a]) sets s2"
  using assms
  by (auto simp: sub_eff_def xor_slot_sub_Inr nth_list_update par_def xor_cancel_right xor.assoc)

lemma add3_effect:
  assumes "xor_slot_add hv a sets = Inr s1" "xor_slot_add hv b s1 = Inr s2"
    "xor_slot_add hv c s2 = Inr s3"
  shows "add_eff hv [a, b, c] sets s3"
  using add_eff_step [OF add_eff_step [OF add_eff_step [OF add_eff_Nil assms(1)] assms(2)] assms(3)]
  by simp

lemma sub3_effect:
  assumes "xor_slot_sub hv a sets = Inr s1" "xor_slot_sub hv b s1 = Inr s2"
    "xor_slot_sub hv c s2 = Inr s3"
  shows "sub_eff hv [a, b, c] sets s3"
  using sub_eff_step [OF sub_eff_step [OF sub_eff_step [OF sub_eff_Nil assms(1)] assms(2)] assms(3)]
  by simp

lemma occ_append: "occ filt (A @ B) i = occ filt A i + occ filt B i"
  by (induction A) simp_all

lemma xm_append: "xm filt (A @ B) i = xm filt A i XOR xm filt B i"
  by (induction A) (simp_all add: xor.assoc)

lemma rep_add:
  assumes "rep filt H sets" and "add_eff hv (slots filt hv) sets s'"
  shows "rep filt (hv # H) s'"
  using assms by (simp add: rep_def add_eff_def add.commute xor.commute)

lemma rep_sub:
  assumes "rep filt (H1 @ hv # H2) sets" and "sub_eff hv (slots filt hv) sets s'"
  shows "rep filt (H1 @ H2) s'"
proof -
  have "xm filt (H1 @ hv # H2) i XOR par hv (slots filt hv) i = xm filt (H1 @ H2) i" for i
    by (simp add: xm_append xor.assoc xor.left_commute [of "par hv (slots filt hv) i"])
  then show ?thesis
    using assms by (simp add: rep_def sub_eff_def occ_append)
qed

lemma xor_count_keys_rep:
  assumes "xor_count_keys filt ks sets = Inr s'" and "rep filt H sets"
  shows "rep filt (rev (map (\<lambda>k. h (xor_get_h0_h1_h2 k filt)) ks) @ H) s' \<and> length s' = length sets"
  using assms
proof (induction ks arbitrary: sets H)
  case Nil
  then show ?case by simp
next
  case (Cons k ks)
  let ?hv = "h (xor_get_h0_h1_h2 k filt)"
  from Cons.prems(1) obtain s1 s2 s3 where
    a: "xor_slot_add ?hv (unat (h0 (xor_get_h0_h1_h2 k filt))) sets = Inr s1"
    and b: "xor_slot_add ?hv (unat (h1 (xor_get_h0_h1_h2 k filt))) s1 = Inr s2"
    and c: "xor_slot_add ?hv (unat (h2 (xor_get_h0_h1_h2 k filt))) s2 = Inr s3"
    and r: "xor_count_keys filt ks s3 = Inr s'"
    by (auto simp: Let_def on_ok_Inr)
  have "add_eff ?hv (slots filt ?hv) sets s3"
    using add3_effect [OF a b c] by (simp add: slots_def flip: get_just_fields)
  then have "rep filt (?hv # H) s3" and "length s3 = length sets"
    using Cons.prems(2) by (simp_all add: rep_add add_eff_def)
  with Cons.IH [OF r, of "?hv # H"] show ?case by simp
qed

lemma occ_le: "occ filt H i \<le> 3 * length H"
proof (induction H)
  case Nil
  show ?case by simp
next
  case (Cons hv H)
  have "count_list (slots filt hv) i \<le> length (slots filt hv)" by (rule count_le_length)
  then have "count_list (slots filt hv) i \<le> 3" by (simp add: slots_def)
  with Cons show ?case by simp
qed

lemma occ_zero:
  assumes "occ filt H i = 0"
  shows "xm filt H i = 0 \<and> (\<forall>hv \<in> set H. i \<notin> set (slots filt hv))"
  using assms by (induction H) (auto simp: par_def count_list_0_iff)

lemma occ_one:
  assumes "occ filt H i = 1"
  shows "\<exists>H1 hv H2. H = H1 @ hv # H2 \<and> count_list (slots filt hv) i = 1 \<and> xm filt H i = hv
           \<and> (\<forall>x \<in> set (H1 @ H2). i \<notin> set (slots filt x))"
  using assms
proof (induction H)
  case Nil
  then show ?case by simp
next
  case (Cons a H)
  show ?case
  proof (cases "count_list (slots filt a) i = 0")
    case True
    with Cons.prems have "occ filt H i = 1" by simp
    from Cons.IH [OF this] obtain H1 hv H2 where
      H: "H = H1 @ hv # H2" and c: "count_list (slots filt hv) i = 1" and x: "xm filt H i = hv"
      and n: "\<forall>x \<in> set (H1 @ H2). i \<notin> set (slots filt x)" by blast
    have "a # H = (a # H1) @ hv # H2" using H by simp
    moreover have "xm filt (a # H) i = hv" using True x by (simp add: par_def)
    moreover have "\<forall>x \<in> set ((a # H1) @ H2). i \<notin> set (slots filt x)"
      using n True by (auto simp: count_list_0_iff)
    ultimately show ?thesis using c by blast
  next
    case False
    with Cons.prems have one: "count_list (slots filt a) i = 1" and z: "occ filt H i = 0" by simp_all
    have "a # H = [] @ a # H" by simp
    moreover have "xm filt (a # H) i = a" using one occ_zero [OF z] by (simp add: par_def)
    moreover have "\<forall>x \<in> set ([] @ H). i \<notin> set (slots filt x)" using occ_zero [OF z] by simp
    ultimately show ?thesis using one by blast
  qed
qed

lemma word_of_nat_64_eq:
  assumes "n < 2 ^ 64"
  shows "(word_of_nat n :: 64 word) = 1 \<longleftrightarrow> n = 1" and "(word_of_nat n :: 64 word) = 0 \<longleftrightarrow> n = 0"
proof -
  have u: "unat (word_of_nat n :: 64 word) = n" using assms by (simp add: unat_of_nat)
  show "(word_of_nat n :: 64 word) = 1 \<longleftrightarrow> n = 1"
  proof
    assume "(word_of_nat n :: 64 word) = 1"
    then have "unat (word_of_nat n :: 64 word) = unat (1 :: 64 word)" by simp
    then show "n = 1" using u by simp
  next
    assume "n = 1" then show "(word_of_nat n :: 64 word) = 1" by simp
  qed
  show "(word_of_nat n :: 64 word) = 0 \<longleftrightarrow> n = 0"
  proof
    assume "(word_of_nat n :: 64 word) = 0"
    then have "unat (word_of_nat n :: 64 word) = unat (0 :: 64 word)" by simp
    then show "n = 0" using u by simp
  next
    assume "n = 0" then show "(word_of_nat n :: 64 word) = 0" by simp
  qed
qed

lemma xor_push_if_one_Inr:
  assumes "xor_push_if_one sets hi qcap Q = Inr Q'"
  shows "Q' = Q \<or> (Q' = Q @ [ucast hi] \<and> unat hi < length sets \<and> count (sets ! unat hi) = 1)"
  using assms
  by (auto simp: xor_push_if_one_def on_ok_Inr array_get_Inr xor_push_Inr split: if_splits)

fun good :: "'c xor_t \<Rightarrow> xor_keyindex_t list \<Rightarrow> bool" where
  "good filt [] \<longleftrightarrow> True"
| "good filt (ki # rest) \<longleftrightarrow>
     count_list (slots filt (hash ki)) (unat (index ki)) = 1
     \<and> (\<forall>ki' \<in> set rest. unat (index ki') \<notin> set (slots filt (hash ki)))
     \<and> good filt rest"

definition peel_inv ::
  "'c xor_t \<Rightarrow> 64 word list \<Rightarrow> xor_xorset_t list \<Rightarrow> 64 word list \<Rightarrow> xor_keyindex_t list \<Rightarrow> bool" where
  "peel_inv filt allH sets Q stack \<longleftrightarrow>
     (\<exists>H. rep filt H sets
        \<and> (\<forall>q \<in> set Q. occ filt H (unat q) \<le> 1)
        \<and> length stack + length H = length allH
        \<and> set allH \<subseteq> hash ` set stack \<union> set H
        \<and> good filt (rev stack)
        \<and> (\<forall>ki \<in> set stack. \<forall>hv \<in> set H. unat (index ki) \<notin> set (slots filt hv)))"

lemma xor_peel_step_Inr:
  assumes "xor_peel_step filt qcap scap (sets, Q, stack) = Inr (sets', Q', stack')"
  obtains (skip) "unat (last Q) < length sets" "count (sets ! unat (last Q)) = 0"
      "sets' = sets" "Q' = butlast Q" "stack' = stack"
  | (peel) hv s1 s2 Q1 Q2 where "unat (last Q) < length sets" "count (sets ! unat (last Q)) \<noteq> 0"
      "hv = xormask (sets ! unat (last Q))" "length stack < scap"
      "stack' = stack @ [\<lparr>hash = hv, index = last Q\<rparr>]"
      "xor_slot_sub hv (unat (h0' (xor_get_just_h0_h1_h2 hv filt))) sets = Inr s1"
      "xor_slot_sub hv (unat (h1' (xor_get_just_h0_h1_h2 hv filt))) s1 = Inr s2"
      "xor_slot_sub hv (unat (h2' (xor_get_just_h0_h1_h2 hv filt))) s2 = Inr sets'"
      "xor_push_if_one sets' (h0' (xor_get_just_h0_h1_h2 hv filt)) qcap (butlast Q) = Inr Q1"
      "xor_push_if_one sets' (h1' (xor_get_just_h0_h1_h2 hv filt)) qcap Q1 = Inr Q2"
      "xor_push_if_one sets' (h2' (xor_get_just_h0_h1_h2 hv filt)) qcap Q2 = Inr Q'"
  using assms
  by (auto simp: xor_peel_step_def Let_def on_ok_Inr array_get_Inr xor_push_Inr split: if_splits)

lemma occ_remove_le: "occ filt (H1 @ H2) i \<le> occ filt (H1 @ hv # H2) i"
  by (simp add: occ_append)

lemma peel_step_inv:
  assumes inv: "peel_inv filt allH sets Q stack" and ne: "Q \<noteq> []"
    and small: "3 * length allH < 2 ^ 64"
    and step: "xor_peel_step filt qcap scap (sets, Q, stack) = Inr (sets', Q', stack')"
  shows "peel_inv filt allH sets' Q' stack'"
proof -
  from inv obtain H where r: "rep filt H sets"
    and q: "\<forall>q \<in> set Q. occ filt H (unat q) \<le> 1"
    and len: "length stack + length H = length allH"
    and sub: "set allH \<subseteq> hash ` set stack \<union> set H"
    and g: "good filt (rev stack)"
    and sep: "\<forall>ki \<in> set stack. \<forall>hv \<in> set H. unat (index ki) \<notin> set (slots filt hv)"
    unfolding peel_inv_def by blast
  have bound: "occ filt H' i < 2 ^ 64" if "length H' \<le> length allH" for H' i
    using occ_le [of filt H' i] that small by linarith
  from step show ?thesis
  proof (cases rule: xor_peel_step_Inr)
    case skip
    have "set (butlast Q) \<subseteq> set Q" by (auto dest: in_set_butlastD)
    with r q len sub g sep skip show ?thesis
      unfolding peel_inv_def by blast
  next
    case (peel hv s1 s2 Q1 Q2)
    let ?i = "unat (last Q)"
    have lastQ: "last Q \<in> set Q" using ne by simp
    have cnt: "count (sets ! ?i) = word_of_nat (occ filt H ?i)"
      and xmk: "xormask (sets ! ?i) = xm filt H ?i"
      using r peel(1) by (simp_all add: rep_def)
    have "occ filt H ?i \<noteq> 0"
    proof
      assume "occ filt H ?i = 0"
      then have "count (sets ! ?i) = 0" using cnt by simp
      with peel(2) show False by simp
    qed
    moreover have "occ filt H ?i \<le> 1" using q lastQ by blast
    ultimately have "occ filt H ?i = 1" by linarith
    from occ_one [OF this] obtain H1 hv' H2 where
      H: "H = H1 @ hv' # H2" and c1: "count_list (slots filt hv') ?i = 1"
      and x: "xm filt H ?i = hv'" and others: "\<forall>x \<in> set (H1 @ H2). ?i \<notin> set (slots filt x)"
      by blast
    have hv: "hv' = hv" using x xmk peel(3) by simp
    let ?H' = "H1 @ H2"
    have "sub_eff hv (slots filt hv) sets sets'"
      using sub3_effect [OF peel(6,7,8)] by (simp add: slots_def)
    then have r': "rep filt ?H' sets'"
      using r H hv rep_sub by blast
    have lenH': "length ?H' \<le> length allH" using len H by simp
    have one: "occ filt ?H' (unat (ucast x :: 64 word)) \<le> 1"
      if "unat x < length sets'" "count (sets' ! unat x) = 1" for x :: "32 word"
    proof -
      have "count (sets' ! unat x) = word_of_nat (occ filt ?H' (unat x))"
        using r' that(1) by (simp add: rep_def)
      with that(2) have "occ filt ?H' (unat x) = 1"
        using word_of_nat_64_eq(1) [OF bound [OF lenH']] by metis
      then show ?thesis by (simp add: unat_ucast_up)
    qed
    have old: "\<forall>q \<in> set (butlast Q). occ filt ?H' (unat q) \<le> 1"
    proof
      fix q assume "q \<in> set (butlast Q)"
      then have "q \<in> set Q" by (rule in_set_butlastD)
      then have "occ filt H (unat q) \<le> 1" using q by blast
      moreover have "occ filt ?H' (unat q) \<le> occ filt H (unat q)"
        unfolding H by (rule occ_remove_le)
      ultimately show "occ filt ?H' (unat q) \<le> 1" by linarith
    qed
    have q1: "\<forall>q \<in> set Q1. occ filt ?H' (unat q) \<le> 1"
      using xor_push_if_one_Inr [OF peel(9)] old one by auto
    have q2: "\<forall>q \<in> set Q2. occ filt ?H' (unat q) \<le> 1"
      using xor_push_if_one_Inr [OF peel(10)] q1 one by auto
    have q3: "\<forall>q \<in> set Q'. occ filt ?H' (unat q) \<le> 1"
      using xor_push_if_one_Inr [OF peel(11)] q2 one by auto
    have len': "length stack' + length ?H' = length allH"
      using len H peel(5) by simp
    have sub': "set allH \<subseteq> hash ` set stack' \<union> set ?H'"
      using sub H hv peel(5) by auto
    have g': "good filt (rev stack')"
      using g c1 hv sep H peel(5) by simp
    have sep': "\<forall>ki \<in> set stack'. \<forall>x \<in> set ?H'. unat (index ki) \<notin> set (slots filt x)"
      using sep others H peel(5) by auto
    from r' q3 len' sub' g' sep' show ?thesis
      unfolding peel_inv_def by blast
  qed
qed

lemma xor_peel_inv:
  assumes "peel_inv filt allH sets Q stack" and "3 * length allH < 2 ^ 64"
    and "xor_peel filt qcap scap sets Q stack = Inr stk"
  shows "\<exists>sets'. peel_inv filt allH sets' [] stk"
  using assms
proof (induction filt qcap scap sets Q stack rule: xor_peel.induct)
  case (1 filt qcap scap sets Q stack)
  show ?case
  proof (cases "Q = []")
    case True
    with "1.prems" show ?thesis by (auto simp: xor_peel.simps)
  next
    case False
    with "1.prems"(3) obtain sets' Q' stack' where
      step: "xor_peel_step filt qcap scap (sets, Q, stack) = Inr (sets', Q', stack')"
      and rest: "xor_peel filt qcap scap sets' Q' stack' = Inr stk"
      by (subst (asm) xor_peel.simps) (auto split: sum.splits)
    have "peel_inv filt allH sets' Q' stack'"
      by (rule peel_step_inv [OF "1.prems"(1) False "1.prems"(2) step])
    from "1.IH" [OF False step refl refl this "1.prems"(2) rest] show ?thesis .
  qed
qed

lemma xor_peel_length:
  assumes "length stack \<le> scap" and "xor_peel filt qcap scap sets Q stack = Inr stk"
  shows "length stk \<le> scap"
  using assms
proof (induction filt qcap scap sets Q stack rule: xor_peel.induct)
  case (1 filt qcap scap sets Q stack)
  show ?case
  proof (cases "Q = []")
    case True
    with "1.prems" show ?thesis by (auto simp: xor_peel.simps)
  next
    case False
    with "1.prems"(2) obtain sets' Q' stack' where
      step: "xor_peel_step filt qcap scap (sets, Q, stack) = Inr (sets', Q', stack')"
      and rest: "xor_peel filt qcap scap sets' Q' stack' = Inr stk"
      by (subst (asm) xor_peel.simps) (auto split: sum.splits)
    have "length stack' \<le> scap"
      using xor_peel_step_cases [OF step] "1.prems"(1) by auto
    from "1.IH" [OF False step refl refl this rest] show ?thesis .
  qed
qed

lemma xor_scan_Inr:
  assumes "xor_scan is sets qcap Q = Inr Q'"
  shows "\<forall>q \<in> set Q'. q \<in> set Q \<or> (\<exists>i \<in> set is. q = word_of_nat i \<and> i < length sets \<and> count (sets ! i) = 1)"
  using assms
proof (induction "is" arbitrary: Q)
  case Nil
  then show ?case by simp
next
  case (Cons i "is")
  from Cons.prems have i: "i < length sets"
    by (auto simp: on_ok_Inr array_get_Inr)
  show ?case
  proof (cases "count (sets ! i) = 1")
    case True
    with Cons.prems i have "xor_scan is sets qcap (Q @ [word_of_nat i]) = Inr Q'"
      by (auto simp: on_ok_Inr array_get_Inr xor_push_Inr)
    from Cons.IH [OF this] True i show ?thesis by auto
  next
    case False
    with Cons.prems i have "xor_scan is sets qcap Q = Inr Q'"
      by (auto simp: on_ok_Inr array_get_Inr)
    from Cons.IH [OF this] show ?thesis by auto
  qed
qed

lemma ucast_cell_roundtrip:
  assumes "LENGTH('w::len) \<le> 64"
  shows "(ucast (ucast (a :: 'w word) :: 64 word) :: 'w word) = a"
  by (rule bit_word_eqI) (use assms in \<open>auto simp: bit_simps\<close>)

lemma ucast_cell_xor:
  "(ucast (x XOR y :: 64 word) :: 'w::len word) = ucast x XOR ucast y"
  by (rule bit_word_eqI) (auto simp: bit_simps)

lemma stored_cell:
  assumes "LENGTH('w::len) \<le> 64"
  shows "(ucast (x XOR ucast (a :: 'w word) XOR ucast b XOR ucast c :: 64 word) :: 'w word)
           = ucast x XOR a XOR b XOR c"
  by (simp add: ucast_cell_xor ucast_cell_roundtrip [OF assms])

lemma rep_zero: "rep filt [] (replicate n \<lparr>xormask = 0, count = 0\<rparr>)"
  by (simp add: rep_def)

lemma xor_attempt_Inr:
  assumes "xor_attempt filt keys sz = Inr stk"
  obtains sets Q where "unat sz \<le> length keys"
    "xor_count_keys filt (take (unat sz) keys)
       (replicate (unat (blockLength filt * 3 * 16) div 16) \<lparr>xormask = 0, count = 0\<rparr>) = Inr sets"
    "xor_scan [0..<unat (blockLength filt * 3)] sets (unat (blockLength filt * 3 * 8) div 8) [] = Inr Q"
    "xor_peel filt (unat (blockLength filt * 3 * 8) div 8) (unat (sz * 16) div 16) sets Q [] = Inr stk"
  using assms
  by (auto simp: xor_attempt_def Let_def on_ok_Inr split: if_splits)

lemma xor_attempt_length:
  assumes "xor_attempt filt keys sz = Inr stk"
  shows "length stk \<le> unat (sz * 16) div 16"
  using assms
proof (cases rule: xor_attempt_Inr)
  case (1 sets Q)
  show ?thesis by (rule xor_peel_length [OF _ 1(4)]) simp
qed

lemma xor_attempt_good:
  assumes att: "xor_attempt filt keys sz = Inr stk" and small: "3 * unat sz < 2 ^ 64"
  shows "unat sz \<le> length keys \<and> good filt (rev stk) \<and> length stk \<le> unat sz
       \<and> (length stk = unat sz \<longrightarrow>
            (\<forall>k \<in> set (take (unat sz) keys). h (xor_get_h0_h1_h2 k filt) \<in> hash ` set stk))"
  using att
proof (cases rule: xor_attempt_Inr)
  case (1 sets Q)
  let ?ks = "take (unat sz) keys"
  let ?allH = "rev (map (\<lambda>k. h (xor_get_h0_h1_h2 k filt)) ?ks)"
  have lenH: "length ?allH = unat sz" using 1(1) by simp
  have small': "3 * length ?allH < 2 ^ 64" using small lenH by simp
  have r: "rep filt ?allH sets"
    using xor_count_keys_rep [OF 1(2) rep_zero] by simp
  have q: "\<forall>q \<in> set Q. occ filt ?allH (unat q) \<le> 1"
  proof
    fix q assume "q \<in> set Q"
    with xor_scan_Inr [OF 1(3)] obtain i where i: "i < unat (blockLength filt * 3)"
      and qi: "q = word_of_nat i" and il: "i < length sets" and c: "count (sets ! i) = 1"
      by auto
    have "i < 2 ^ 64" using i unat_lt_2p64 [of "blockLength filt * 3"] by linarith
    then have u: "unat q = i" using qi by (simp add: unat_of_nat)
    have "occ filt ?allH i < 2 ^ 64" using occ_le [of filt ?allH i] small' by linarith
    moreover have "count (sets ! i) = word_of_nat (occ filt ?allH i)"
      using r il by (simp add: rep_def)
    ultimately have "occ filt ?allH i = 1" using c word_of_nat_64_eq(1) by metis
    with u show "occ filt ?allH (unat q) \<le> 1" by simp
  qed
  have "peel_inv filt ?allH sets Q []"
    unfolding peel_inv_def using r q by (intro exI [of _ ?allH]) simp
  from xor_peel_inv [OF this small' 1(4)] obtain sets' H where
    len: "length stk + length H = length ?allH"
    and sub: "set ?allH \<subseteq> hash ` set stk \<union> set H"
    and g: "good filt (rev stk)"
    unfolding peel_inv_def by blast
  have "\<forall>k \<in> set ?ks. h (xor_get_h0_h1_h2 k filt) \<in> hash ` set stk" if "length stk = unat sz"
  proof -
    from that len have "length H = 0" by (simp only: lenH)
    then have "H = []" by simp
    with sub show ?thesis by auto
  qed
  moreover have "length stk \<le> unat sz" using len by (simp only: lenH)
  ultimately show ?thesis using 1(1) g by simp
qed

lemma success_size:
  assumes "(word_of_nat (length stk) :: 64 word) = sz" and "length stk \<le> unat (sz * 16) div 16"
  shows "length stk = unat sz \<and> 3 * unat sz < 2 ^ 64"
proof -
  have "unat (sz * 16) div 16 < 2 ^ 60"
    using unat_lt_2p64 [of "sz * 16"] by simp
  with assms(2) have l: "length stk < 2 ^ 60" by linarith
  then have "unat (word_of_nat (length stk) :: 64 word) = length stk"
    by (simp add: unat_of_nat)
  with assms(1) have "length stk = unat sz" by simp
  with l show ?thesis by simp
qed

definition cells :: "'c xor_t \<Rightarrow> 'c list" where
  "cells filt = (case fingerprints filt of None \<Rightarrow> [] | Some F \<Rightarrow> F)"

definition sat :: "('w::len) word xor_t \<Rightarrow> 64 word \<Rightarrow> bool" where
  "sat filt hv \<longleftrightarrow>
     (\<forall>s \<in> set (slots filt hv). s < length (cells filt))
     \<and> (ucast (xor_fingerprint hv) :: 'w word)
         = cells filt ! (slots filt hv ! 0) XOR cells filt ! (slots filt hv ! 1)
           XOR cells filt ! (slots filt hv ! 2)"

lemma slots_cong: "blockLength f = blockLength g \<Longrightarrow> slots f hv = slots g hv"
  by (simp add: slots_def xor_get_just_h0_h1_h2_def Let_def)

lemma good_cong: "blockLength f = blockLength g \<Longrightarrow> good f L = good g L"
  by (induction L) (simp_all add: slots_cong [of f g])

lemma assign_cell:
  fixes F :: "('w::len) word list"
  assumes "LENGTH('w) \<le> 64" and "count_list [s0, s1, s2] idx = 1" and "idx < length F"
  shows "(ucast x :: 'w word)
           = (F[idx := ucast (x XOR ucast (F[idx := 0] ! s0) XOR ucast (F[idx := 0] ! s1)
                                XOR ucast (F[idx := 0] ! s2) :: 64 word)]) ! s0
             XOR (F[idx := ucast (x XOR ucast (F[idx := 0] ! s0) XOR ucast (F[idx := 0] ! s1)
                                XOR ucast (F[idx := 0] ! s2) :: 64 word)]) ! s1
             XOR (F[idx := ucast (x XOR ucast (F[idx := 0] ! s0) XOR ucast (F[idx := 0] ! s1)
                                XOR ucast (F[idx := 0] ! s2) :: 64 word)]) ! s2"
  using assms(2,3)
  by (auto simp: stored_cell [OF assms(1)] nth_list_update xor.assoc xor.commute xor.left_commute
      split: if_splits)

lemma xor_assign_Cons:
  assumes "xor_assign filt (ki # L) = Inr filt'"
  obtains F where "fingerprints filt = Some F" "unat (index ki) < length F"
    "\<forall>s \<in> set (slots filt (hash ki)). s < length F"
    "xor_assign (filt\<lparr>fingerprints := Some (F[unat (index ki) :=
        ucast (xor_fingerprint (hash ki)
               XOR ucast (F[unat (index ki) := 0] ! (slots filt (hash ki) ! 0))
               XOR ucast (F[unat (index ki) := 0] ! (slots filt (hash ki) ! 1))
               XOR ucast (F[unat (index ki) := 0] ! (slots filt (hash ki) ! 2)))])\<rparr>) L = Inr filt'"
  using assms
  by (auto simp: Let_def on_ok_Inr array_get_Inr array_set_Inr slots_def split: option.splits)

lemma xor_assign_sat:
  fixes filt :: "('w::len) word xor_t"
  assumes "LENGTH('w) \<le> 64" and "xor_assign filt L = Inr filt'" and "good filt L"
  shows "blockLength filt' = blockLength filt \<and> seed filt' = seed filt
       \<and> (fingerprints filt' = None \<longleftrightarrow> fingerprints filt = None)
       \<and> length (cells filt') = length (cells filt)
       \<and> (\<forall>i. i \<notin> (\<lambda>ki. unat (index ki)) ` set L \<longrightarrow> cells filt' ! i = cells filt ! i)
       \<and> (\<forall>ki \<in> set L. sat filt' (hash ki))"
  using assms(2,3)
proof (induction L arbitrary: filt)
  case Nil
  then show ?case by simp
next
  case (Cons ki L)
  let ?idx = "unat (index ki)"
  let ?ss = "slots filt (hash ki)"
  from Cons.prems(1) obtain F where F: "fingerprints filt = Some F" and idx: "?idx < length F"
    and ss: "\<forall>s \<in> set ?ss. s < length F"
    and rest: "xor_assign (filt\<lparr>fingerprints := Some (F[?idx :=
        ucast (xor_fingerprint (hash ki)
               XOR ucast (F[?idx := 0] ! (?ss ! 0))
               XOR ucast (F[?idx := 0] ! (?ss ! 1))
               XOR ucast (F[?idx := 0] ! (?ss ! 2)))])\<rparr>) L = Inr filt'"
    by (rule xor_assign_Cons)
  define F1 where "F1 = F[?idx :=
        ucast (xor_fingerprint (hash ki)
               XOR ucast (F[?idx := 0] ! (?ss ! 0))
               XOR ucast (F[?idx := 0] ! (?ss ! 1))
               XOR ucast (F[?idx := 0] ! (?ss ! 2)))]"
  define f1 where "f1 = filt\<lparr>fingerprints := Some F1\<rparr>"
  have rest': "xor_assign f1 L = Inr filt'" using rest by (simp add: f1_def F1_def)
  have bl: "blockLength f1 = blockLength filt" by (simp add: f1_def)
  from Cons.prems(2) have c1: "count_list ?ss ?idx = 1"
    and away: "\<forall>ki' \<in> set L. unat (index ki') \<notin> set ?ss" and gL: "good filt L"
    by simp_all
  have "good f1 L" using gL good_cong [OF bl] by simp
  from Cons.IH [OF rest' this] have
    ih_bl: "blockLength filt' = blockLength f1" and ih_seed: "seed filt' = seed f1"
    and ih_none: "fingerprints filt' = None \<longleftrightarrow> fingerprints f1 = None"
    and ih_len: "length (cells filt') = length (cells f1)"
    and ih_same: "\<forall>i. i \<notin> (\<lambda>ki. unat (index ki)) ` set L \<longrightarrow> cells filt' ! i = cells f1 ! i"
    and ih_sat: "\<forall>ki \<in> set L. sat filt' (hash ki)"
    by simp_all
  have cf1: "cells f1 = F1" and cf: "cells filt = F" by (simp_all add: cells_def f1_def F)
  have lenF1: "length F1 = length F" by (simp add: F1_def)
  have ss3: "?ss = [?ss ! 0, ?ss ! 1, ?ss ! 2]" by (simp add: slots_def)
  have eq: "(ucast (xor_fingerprint (hash ki)) :: 'w word) = F1 ! (?ss ! 0) XOR F1 ! (?ss ! 1) XOR F1 ! (?ss ! 2)"
    unfolding F1_def
    by (rule assign_cell [OF assms(1) _ idx]) (use c1 ss3 in simp)
  have slots': "slots filt' (hash ki) = ?ss"
    by (rule slots_cong) (simp add: ih_bl bl)
  have keep: "cells filt' ! s = F1 ! s" if "s \<in> set ?ss" for s
  proof -
    from that away have "s \<notin> (\<lambda>ki. unat (index ki)) ` set L" by auto
    with ih_same cf1 show ?thesis by simp
  qed
  have in3: "?ss ! 0 \<in> set ?ss" "?ss ! 1 \<in> set ?ss" "?ss ! 2 \<in> set ?ss"
    by (simp_all add: slots_def)
  have sat_ki: "sat filt' (hash ki)"
    unfolding sat_def slots'
    using ss eq keep [OF in3(1)] keep [OF in3(2)] keep [OF in3(3)] ih_len cf1 lenF1
    by simp
  have same: "\<forall>i. i \<notin> (\<lambda>ki. unat (index ki)) ` set (ki # L) \<longrightarrow> cells filt' ! i = cells filt ! i"
    using ih_same cf1 cf by (simp add: F1_def)
  show ?case
    using ih_bl ih_seed ih_none ih_len bl sat_ki ih_sat same cf1 cf lenF1 F
    by (simp add: f1_def)
qed

lemma xor_populate_loop_Some:
  assumes "xor_populate_loop filt keys sz rng = Some y"
  shows "case y of
           Inl e \<Rightarrow> True
         | Inr (filt', stk) \<Rightarrow>
             xor_attempt filt' keys sz = Inr stk \<and> word_of_nat (length stk) = sz
             \<and> blockLength filt' = blockLength filt \<and> fingerprints filt' = fingerprints filt"
proof (rule xor_populate_loop.raw_induct
    [where P = "\<lambda>filt keys sz rng y. case y of
           Inl e \<Rightarrow> True
         | Inr (filt', stk) \<Rightarrow>
             xor_attempt filt' keys sz = Inr stk \<and> word_of_nat (length stk) = sz
             \<and> blockLength filt' = blockLength filt \<and> fingerprints filt' = fingerprints filt",
     OF _ assms], goal_cases)
  case (1 loop filt keys sz rng y)
  show ?case
  proof (cases "xor_attempt filt keys sz")
    case (Inl e)
    with 1(2) show ?thesis by auto
  next
    case (Inr stk)
    show ?thesis
    proof (cases "word_of_nat (length stk) = sz")
      case True
      with 1(2) Inr show ?thesis by auto
    next
      case False
      obtain r c where rc: "xor_rng_splitmix64 rng = (r, c)" by (cases "xor_rng_splitmix64 rng")
      with 1(2) Inr False have "loop (filt\<lparr>seed := r\<rparr>) keys sz c = Some y" by simp
      from 1(1) [OF this] show ?thesis by (auto split: sum.splits)
    qed
  qed
qed

lemma get_cong:
  "seed f = seed g \<Longrightarrow> blockLength f = blockLength g \<Longrightarrow> xor_get_h0_h1_h2 k f = xor_get_h0_h1_h2 k g"
  by (simp add: xor_get_h0_h1_h2_def)

lemma xor_populate_True:
  assumes "xor_populate m keys sz filt = Some (Inr (True, filt', held))"
  obtains f1 stk where "xor_attempt f1 keys sz = Inr stk" "word_of_nat (length stk) = sz"
    "blockLength f1 = blockLength filt" "fingerprints f1 = fingerprints filt"
    "xor_assign f1 (rev stk) = Inr filt'" "held = []"
proof -
  obtain r c where rc: "xor_rng_splitmix64 1 = (r, c)" by (cases "xor_rng_splitmix64 1")
  from assms rc have all: "fst m" "fst (snd m)" "snd (snd m)"
    by (auto simp: xor_populate_def Let_def split: if_splits)
  with assms rc obtain f1 stk where
    loop: "xor_populate_loop (filt\<lparr>seed := r\<rparr>) keys sz c = Some (Inr (f1, stk))"
    and asg: "xor_assign f1 (rev stk) = Inr filt'" and held: "held = []"
    by (auto simp: xor_populate_def Let_def xor_free_def List.map_filter_simps
        split: option.splits sum.splits)
  from xor_populate_loop_Some [OF loop] asg held that show ?thesis by auto
qed

lemma xor_populate_no_false_negatives:
  fixes filt :: "('w::len) word xor_t"
  assumes w: "LENGTH('w) \<le> 64"
    and pop: "xor_populate m keys sz filt = Some (Inr (True, filt', held))"
    and k: "k \<in> set (take (unat sz) keys)"
  shows "xor_contain k filt' = Inr True
       \<and> (\<exists>F. fingerprints filt' = Some F
             \<and> unat (h0 (xor_get_h0_h1_h2 k filt')) < length F
             \<and> unat (h1 (xor_get_h0_h1_h2 k filt')) < length F
             \<and> unat (h2 (xor_get_h0_h1_h2 k filt')) < length F
             \<and> (ucast (xor_fingerprint (h (xor_get_h0_h1_h2 k filt'))) :: 'w word)
                 = F ! unat (h0 (xor_get_h0_h1_h2 k filt'))
                   XOR F ! unat (h1 (xor_get_h0_h1_h2 k filt'))
                   XOR F ! unat (h2 (xor_get_h0_h1_h2 k filt')))"
  using pop
proof (cases rule: xor_populate_True)
  case (1 f1 stk)
  from success_size [OF 1(2) xor_attempt_length [OF 1(1)]]
  have len: "length stk = unat sz" and small: "3 * unat sz < 2 ^ 64" by simp_all
  from xor_attempt_good [OF 1(1) small] len k
  have g: "good f1 (rev stk)" and inst: "h (xor_get_h0_h1_h2 k f1) \<in> hash ` set stk"
    by simp_all
  from xor_assign_sat [OF w 1(5) g]
  have bl: "blockLength filt' = blockLength f1" and sd: "seed filt' = seed f1"
    and sat: "\<forall>ki \<in> set (rev stk). sat filt' (hash ki)"
    by simp_all
  have same: "xor_get_h0_h1_h2 k filt' = xor_get_h0_h1_h2 k f1"
    by (rule get_cong [OF sd bl])
  let ?hs = "xor_get_h0_h1_h2 k filt'"
  from inst sat same have s: "sat filt' (h ?hs)" by auto
  have sl: "slots filt' (h ?hs) = [unat (h0 ?hs), unat (h1 ?hs), unat (h2 ?hs)]"
    by (simp add: slots_def flip: get_just_fields)
  from s have lt: "unat (h0 ?hs) < length (cells filt')" "unat (h1 ?hs) < length (cells filt')"
    "unat (h2 ?hs) < length (cells filt')"
    and eq: "(ucast (xor_fingerprint (h ?hs)) :: 'w word)
               = cells filt' ! unat (h0 ?hs) XOR cells filt' ! unat (h1 ?hs) XOR cells filt' ! unat (h2 ?hs)"
    unfolding sat_def sl by simp_all
  from lt(1) obtain F where F: "fingerprints filt' = Some F"
    by (cases "fingerprints filt'") (simp_all add: cells_def)
  then have c: "cells filt' = F" by (simp add: cells_def)
  have "xor_contain k filt' = Inr True"
    using lt eq unfolding c
    by (simp add: xor_contain_unfold [OF F] array_get_def on_ok_def xor_eq_0_iff)
  with F lt eq c show ?thesis by simp
qed

section \<open>Two constructions, step by step\<close>

text \<open>
  \<^verbatim>\<open>xor8_populate\<close> on the keys 1, 2, 3 and \<^verbatim>\<open>xor16_populate\<close> on the keys 5, 7, 11,
  evaluated round by round: the hashes, the accumulators after the first loop, the
  queue after the scan, every round of the peeling loop, and the assignment.
\<close>

lemma run8_get_1: "xor_get_h0_h1_h2 1 run8_seeded = \<lparr>h = 7178537244092407270, h0 = 0, h1 = 3, h2 = 4\<rparr>"
  by (simp add: run8_seeded_def hash_eval)

lemma run8_get_2: "xor_get_h0_h1_h2 2 run8_seeded = \<lparr>h = 7639283029843589050, h0 = 1, h1 = 3, h2 = 4\<rparr>"
  by (simp add: run8_seeded_def hash_eval)

lemma run8_get_3: "xor_get_h0_h1_h2 3 run8_seeded = \<lparr>h = 13110481669377847333, h0 = 1, h1 = 2, h2 = 5\<rparr>"
  by (simp add: run8_seeded_def hash_eval)

lemma run8_slots_7178537244092407270:
  "xor_get_just_h0_h1_h2 7178537244092407270 \<lparr>seed = s, blockLength = 2, fingerprints = X\<rparr>
     = \<lparr>h0' = 0, h1' = 3, h2' = 4\<rparr>"
  by (simp add: xor_get_just_h0_h1_h2_def hash_eval)

lemma run8_just_7178537244092407270: "xor_get_just_h0_h1_h2 7178537244092407270 run8_seeded = \<lparr>h0' = 0, h1' = 3, h2' = 4\<rparr>"
  by (simp add: run8_seeded_def run8_slots_7178537244092407270)

lemma run8_slots_7639283029843589050:
  "xor_get_just_h0_h1_h2 7639283029843589050 \<lparr>seed = s, blockLength = 2, fingerprints = X\<rparr>
     = \<lparr>h0' = 1, h1' = 3, h2' = 4\<rparr>"
  by (simp add: xor_get_just_h0_h1_h2_def hash_eval)

lemma run8_just_7639283029843589050: "xor_get_just_h0_h1_h2 7639283029843589050 run8_seeded = \<lparr>h0' = 1, h1' = 3, h2' = 4\<rparr>"
  by (simp add: run8_seeded_def run8_slots_7639283029843589050)

lemma run8_slots_13110481669377847333:
  "xor_get_just_h0_h1_h2 13110481669377847333 \<lparr>seed = s, blockLength = 2, fingerprints = X\<rparr>
     = \<lparr>h0' = 1, h1' = 2, h2' = 5\<rparr>"
  by (simp add: xor_get_just_h0_h1_h2_def hash_eval)

lemma run8_just_13110481669377847333: "xor_get_just_h0_h1_h2 13110481669377847333 run8_seeded = \<lparr>h0' = 1, h1' = 2, h2' = 5\<rparr>"
  by (simp add: run8_seeded_def run8_slots_13110481669377847333)

lemma run8_zero: "replicate 6 \<lparr>xormask = 0, count = 0\<rparr> = [\<lparr>xormask = 0, count = 0\<rparr>, \<lparr>xormask = 0, count = 0\<rparr>, \<lparr>xormask = 0, count = 0\<rparr>, \<lparr>xormask = 0, count = 0\<rparr>, \<lparr>xormask = 0, count = 0\<rparr>, \<lparr>xormask = 0, count = 0\<rparr>]"
  by (simp add: numeral_eq_Suc)

lemma run8_count: "xor_count_keys run8_seeded [1, 2, 3] (replicate 6 \<lparr>xormask = 0, count = 0\<rparr>) = Inr [\<lparr>xormask = 7178537244092407270, count = 1\<rparr>, \<lparr>xormask = 16138058746775881631, count = 2\<rparr>, \<lparr>xormask = 13110481669377847333, count = 1\<rparr>, \<lparr>xormask = 692260114038860380, count = 2\<rparr>, \<lparr>xormask = 692260114038860380, count = 2\<rparr>, \<lparr>xormask = 13110481669377847333, count = 1\<rparr>]"
  by (simp add: run8_zero run8_get_1 run8_get_2 run8_get_3 Let_def xor_slot_add_def on_ok_def array_get_def array_set_def)

lemma run8_scan: "xor_scan [0..<6] [\<lparr>xormask = 7178537244092407270, count = 1\<rparr>, \<lparr>xormask = 16138058746775881631, count = 2\<rparr>, \<lparr>xormask = 13110481669377847333, count = 1\<rparr>, \<lparr>xormask = 692260114038860380, count = 2\<rparr>, \<lparr>xormask = 692260114038860380, count = 2\<rparr>, \<lparr>xormask = 13110481669377847333, count = 1\<rparr>] 6 [] = Inr [0, 2, 5]"
  by (simp add: upt_conv_Cons on_ok_def array_get_def xor_push_def)

lemma run8_step_0:
  "xor_peel_step run8_seeded 6 3 ([\<lparr>xormask = 7178537244092407270, count = 1\<rparr>, \<lparr>xormask = 16138058746775881631, count = 2\<rparr>, \<lparr>xormask = 13110481669377847333, count = 1\<rparr>, \<lparr>xormask = 692260114038860380, count = 2\<rparr>, \<lparr>xormask = 692260114038860380, count = 2\<rparr>, \<lparr>xormask = 13110481669377847333, count = 1\<rparr>], [0, 2, 5], [])
     = Inr ([\<lparr>xormask = 7178537244092407270, count = 1\<rparr>, \<lparr>xormask = 7639283029843589050, count = 1\<rparr>, \<lparr>xormask = 0, count = 0\<rparr>, \<lparr>xormask = 692260114038860380, count = 2\<rparr>, \<lparr>xormask = 692260114038860380, count = 2\<rparr>, \<lparr>xormask = 0, count = 0\<rparr>], [0, 2, 1], [\<lparr>hash = 13110481669377847333, index = 5\<rparr>])"
  by (simp add: xor_peel_step_def run8_just_7178537244092407270 run8_just_7639283029843589050 run8_just_13110481669377847333 xor_slot_sub_def xor_push_if_one_def xor_push_def
      on_ok_def array_get_def array_set_def)

lemma run8_step_1:
  "xor_peel_step run8_seeded 6 3 ([\<lparr>xormask = 7178537244092407270, count = 1\<rparr>, \<lparr>xormask = 7639283029843589050, count = 1\<rparr>, \<lparr>xormask = 0, count = 0\<rparr>, \<lparr>xormask = 692260114038860380, count = 2\<rparr>, \<lparr>xormask = 692260114038860380, count = 2\<rparr>, \<lparr>xormask = 0, count = 0\<rparr>], [0, 2, 1], [\<lparr>hash = 13110481669377847333, index = 5\<rparr>])
     = Inr ([\<lparr>xormask = 7178537244092407270, count = 1\<rparr>, \<lparr>xormask = 0, count = 0\<rparr>, \<lparr>xormask = 0, count = 0\<rparr>, \<lparr>xormask = 7178537244092407270, count = 1\<rparr>, \<lparr>xormask = 7178537244092407270, count = 1\<rparr>, \<lparr>xormask = 0, count = 0\<rparr>], [0, 2, 3, 4], [\<lparr>hash = 13110481669377847333, index = 5\<rparr>, \<lparr>hash = 7639283029843589050, index = 1\<rparr>])"
  by (simp add: xor_peel_step_def run8_just_7178537244092407270 run8_just_7639283029843589050 run8_just_13110481669377847333 xor_slot_sub_def xor_push_if_one_def xor_push_def
      on_ok_def array_get_def array_set_def)

lemma run8_step_2:
  "xor_peel_step run8_seeded 6 3 ([\<lparr>xormask = 7178537244092407270, count = 1\<rparr>, \<lparr>xormask = 0, count = 0\<rparr>, \<lparr>xormask = 0, count = 0\<rparr>, \<lparr>xormask = 7178537244092407270, count = 1\<rparr>, \<lparr>xormask = 7178537244092407270, count = 1\<rparr>, \<lparr>xormask = 0, count = 0\<rparr>], [0, 2, 3, 4], [\<lparr>hash = 13110481669377847333, index = 5\<rparr>, \<lparr>hash = 7639283029843589050, index = 1\<rparr>])
     = Inr ([\<lparr>xormask = 0, count = 0\<rparr>, \<lparr>xormask = 0, count = 0\<rparr>, \<lparr>xormask = 0, count = 0\<rparr>, \<lparr>xormask = 0, count = 0\<rparr>, \<lparr>xormask = 0, count = 0\<rparr>, \<lparr>xormask = 0, count = 0\<rparr>], [0, 2, 3], [\<lparr>hash = 13110481669377847333, index = 5\<rparr>, \<lparr>hash = 7639283029843589050, index = 1\<rparr>, \<lparr>hash = 7178537244092407270, index = 4\<rparr>])"
  by (simp add: xor_peel_step_def run8_just_7178537244092407270 run8_just_7639283029843589050 run8_just_13110481669377847333 xor_slot_sub_def xor_push_if_one_def xor_push_def
      on_ok_def array_get_def array_set_def)

lemma run8_step_3:
  "xor_peel_step run8_seeded 6 3 ([\<lparr>xormask = 0, count = 0\<rparr>, \<lparr>xormask = 0, count = 0\<rparr>, \<lparr>xormask = 0, count = 0\<rparr>, \<lparr>xormask = 0, count = 0\<rparr>, \<lparr>xormask = 0, count = 0\<rparr>, \<lparr>xormask = 0, count = 0\<rparr>], [0, 2, 3], [\<lparr>hash = 13110481669377847333, index = 5\<rparr>, \<lparr>hash = 7639283029843589050, index = 1\<rparr>, \<lparr>hash = 7178537244092407270, index = 4\<rparr>])
     = Inr ([\<lparr>xormask = 0, count = 0\<rparr>, \<lparr>xormask = 0, count = 0\<rparr>, \<lparr>xormask = 0, count = 0\<rparr>, \<lparr>xormask = 0, count = 0\<rparr>, \<lparr>xormask = 0, count = 0\<rparr>, \<lparr>xormask = 0, count = 0\<rparr>], [0, 2], [\<lparr>hash = 13110481669377847333, index = 5\<rparr>, \<lparr>hash = 7639283029843589050, index = 1\<rparr>, \<lparr>hash = 7178537244092407270, index = 4\<rparr>])"
  by (simp add: xor_peel_step_def run8_just_7178537244092407270 run8_just_7639283029843589050 run8_just_13110481669377847333 xor_slot_sub_def xor_push_if_one_def xor_push_def
      on_ok_def array_get_def array_set_def)

lemma run8_step_4:
  "xor_peel_step run8_seeded 6 3 ([\<lparr>xormask = 0, count = 0\<rparr>, \<lparr>xormask = 0, count = 0\<rparr>, \<lparr>xormask = 0, count = 0\<rparr>, \<lparr>xormask = 0, count = 0\<rparr>, \<lparr>xormask = 0, count = 0\<rparr>, \<lparr>xormask = 0, count = 0\<rparr>], [0, 2], [\<lparr>hash = 13110481669377847333, index = 5\<rparr>, \<lparr>hash = 7639283029843589050, index = 1\<rparr>, \<lparr>hash = 7178537244092407270, index = 4\<rparr>])
     = Inr ([\<lparr>xormask = 0, count = 0\<rparr>, \<lparr>xormask = 0, count = 0\<rparr>, \<lparr>xormask = 0, count = 0\<rparr>, \<lparr>xormask = 0, count = 0\<rparr>, \<lparr>xormask = 0, count = 0\<rparr>, \<lparr>xormask = 0, count = 0\<rparr>], [0], [\<lparr>hash = 13110481669377847333, index = 5\<rparr>, \<lparr>hash = 7639283029843589050, index = 1\<rparr>, \<lparr>hash = 7178537244092407270, index = 4\<rparr>])"
  by (simp add: xor_peel_step_def run8_just_7178537244092407270 run8_just_7639283029843589050 run8_just_13110481669377847333 xor_slot_sub_def xor_push_if_one_def xor_push_def
      on_ok_def array_get_def array_set_def)

lemma run8_step_5:
  "xor_peel_step run8_seeded 6 3 ([\<lparr>xormask = 0, count = 0\<rparr>, \<lparr>xormask = 0, count = 0\<rparr>, \<lparr>xormask = 0, count = 0\<rparr>, \<lparr>xormask = 0, count = 0\<rparr>, \<lparr>xormask = 0, count = 0\<rparr>, \<lparr>xormask = 0, count = 0\<rparr>], [0], [\<lparr>hash = 13110481669377847333, index = 5\<rparr>, \<lparr>hash = 7639283029843589050, index = 1\<rparr>, \<lparr>hash = 7178537244092407270, index = 4\<rparr>])
     = Inr ([\<lparr>xormask = 0, count = 0\<rparr>, \<lparr>xormask = 0, count = 0\<rparr>, \<lparr>xormask = 0, count = 0\<rparr>, \<lparr>xormask = 0, count = 0\<rparr>, \<lparr>xormask = 0, count = 0\<rparr>, \<lparr>xormask = 0, count = 0\<rparr>], [], [\<lparr>hash = 13110481669377847333, index = 5\<rparr>, \<lparr>hash = 7639283029843589050, index = 1\<rparr>, \<lparr>hash = 7178537244092407270, index = 4\<rparr>])"
  by (simp add: xor_peel_step_def run8_just_7178537244092407270 run8_just_7639283029843589050 run8_just_13110481669377847333 xor_slot_sub_def xor_push_if_one_def xor_push_def
      on_ok_def array_get_def array_set_def)

lemma run8_peel_6:
  "xor_peel run8_seeded 6 3 [\<lparr>xormask = 0, count = 0\<rparr>, \<lparr>xormask = 0, count = 0\<rparr>, \<lparr>xormask = 0, count = 0\<rparr>, \<lparr>xormask = 0, count = 0\<rparr>, \<lparr>xormask = 0, count = 0\<rparr>, \<lparr>xormask = 0, count = 0\<rparr>] [] [\<lparr>hash = 13110481669377847333, index = 5\<rparr>, \<lparr>hash = 7639283029843589050, index = 1\<rparr>, \<lparr>hash = 7178537244092407270, index = 4\<rparr>] = Inr [\<lparr>hash = 13110481669377847333, index = 5\<rparr>, \<lparr>hash = 7639283029843589050, index = 1\<rparr>, \<lparr>hash = 7178537244092407270, index = 4\<rparr>]"
  by (subst xor_peel.simps) simp

lemma run8_peel_5:
  "xor_peel run8_seeded 6 3 [\<lparr>xormask = 0, count = 0\<rparr>, \<lparr>xormask = 0, count = 0\<rparr>, \<lparr>xormask = 0, count = 0\<rparr>, \<lparr>xormask = 0, count = 0\<rparr>, \<lparr>xormask = 0, count = 0\<rparr>, \<lparr>xormask = 0, count = 0\<rparr>] [0] [\<lparr>hash = 13110481669377847333, index = 5\<rparr>, \<lparr>hash = 7639283029843589050, index = 1\<rparr>, \<lparr>hash = 7178537244092407270, index = 4\<rparr>] = Inr [\<lparr>hash = 13110481669377847333, index = 5\<rparr>, \<lparr>hash = 7639283029843589050, index = 1\<rparr>, \<lparr>hash = 7178537244092407270, index = 4\<rparr>]"
  by (subst xor_peel.simps) (simp add: run8_step_5 run8_peel_6)

lemma run8_peel_4:
  "xor_peel run8_seeded 6 3 [\<lparr>xormask = 0, count = 0\<rparr>, \<lparr>xormask = 0, count = 0\<rparr>, \<lparr>xormask = 0, count = 0\<rparr>, \<lparr>xormask = 0, count = 0\<rparr>, \<lparr>xormask = 0, count = 0\<rparr>, \<lparr>xormask = 0, count = 0\<rparr>] [0, 2] [\<lparr>hash = 13110481669377847333, index = 5\<rparr>, \<lparr>hash = 7639283029843589050, index = 1\<rparr>, \<lparr>hash = 7178537244092407270, index = 4\<rparr>] = Inr [\<lparr>hash = 13110481669377847333, index = 5\<rparr>, \<lparr>hash = 7639283029843589050, index = 1\<rparr>, \<lparr>hash = 7178537244092407270, index = 4\<rparr>]"
  by (subst xor_peel.simps) (simp add: run8_step_4 run8_peel_5)

lemma run8_peel_3:
  "xor_peel run8_seeded 6 3 [\<lparr>xormask = 0, count = 0\<rparr>, \<lparr>xormask = 0, count = 0\<rparr>, \<lparr>xormask = 0, count = 0\<rparr>, \<lparr>xormask = 0, count = 0\<rparr>, \<lparr>xormask = 0, count = 0\<rparr>, \<lparr>xormask = 0, count = 0\<rparr>] [0, 2, 3] [\<lparr>hash = 13110481669377847333, index = 5\<rparr>, \<lparr>hash = 7639283029843589050, index = 1\<rparr>, \<lparr>hash = 7178537244092407270, index = 4\<rparr>] = Inr [\<lparr>hash = 13110481669377847333, index = 5\<rparr>, \<lparr>hash = 7639283029843589050, index = 1\<rparr>, \<lparr>hash = 7178537244092407270, index = 4\<rparr>]"
  by (subst xor_peel.simps) (simp add: run8_step_3 run8_peel_4)

lemma run8_peel_2:
  "xor_peel run8_seeded 6 3 [\<lparr>xormask = 7178537244092407270, count = 1\<rparr>, \<lparr>xormask = 0, count = 0\<rparr>, \<lparr>xormask = 0, count = 0\<rparr>, \<lparr>xormask = 7178537244092407270, count = 1\<rparr>, \<lparr>xormask = 7178537244092407270, count = 1\<rparr>, \<lparr>xormask = 0, count = 0\<rparr>] [0, 2, 3, 4] [\<lparr>hash = 13110481669377847333, index = 5\<rparr>, \<lparr>hash = 7639283029843589050, index = 1\<rparr>] = Inr [\<lparr>hash = 13110481669377847333, index = 5\<rparr>, \<lparr>hash = 7639283029843589050, index = 1\<rparr>, \<lparr>hash = 7178537244092407270, index = 4\<rparr>]"
  by (subst xor_peel.simps) (simp add: run8_step_2 run8_peel_3)

lemma run8_peel_1:
  "xor_peel run8_seeded 6 3 [\<lparr>xormask = 7178537244092407270, count = 1\<rparr>, \<lparr>xormask = 7639283029843589050, count = 1\<rparr>, \<lparr>xormask = 0, count = 0\<rparr>, \<lparr>xormask = 692260114038860380, count = 2\<rparr>, \<lparr>xormask = 692260114038860380, count = 2\<rparr>, \<lparr>xormask = 0, count = 0\<rparr>] [0, 2, 1] [\<lparr>hash = 13110481669377847333, index = 5\<rparr>] = Inr [\<lparr>hash = 13110481669377847333, index = 5\<rparr>, \<lparr>hash = 7639283029843589050, index = 1\<rparr>, \<lparr>hash = 7178537244092407270, index = 4\<rparr>]"
  by (subst xor_peel.simps) (simp add: run8_step_1 run8_peel_2)

lemma run8_peel_0:
  "xor_peel run8_seeded 6 3 [\<lparr>xormask = 7178537244092407270, count = 1\<rparr>, \<lparr>xormask = 16138058746775881631, count = 2\<rparr>, \<lparr>xormask = 13110481669377847333, count = 1\<rparr>, \<lparr>xormask = 692260114038860380, count = 2\<rparr>, \<lparr>xormask = 692260114038860380, count = 2\<rparr>, \<lparr>xormask = 13110481669377847333, count = 1\<rparr>] [0, 2, 5] [] = Inr [\<lparr>hash = 13110481669377847333, index = 5\<rparr>, \<lparr>hash = 7639283029843589050, index = 1\<rparr>, \<lparr>hash = 7178537244092407270, index = 4\<rparr>]"
  by (subst xor_peel.simps) (simp add: run8_step_0 run8_peel_1)

lemma run8_attempt: "xor_attempt run8_seeded [1, 2, 3] 3 = Inr [\<lparr>hash = 13110481669377847333, index = 5\<rparr>, \<lparr>hash = 7639283029843589050, index = 1\<rparr>, \<lparr>hash = 7178537244092407270, index = 4\<rparr>]"
  using run8_count run8_scan run8_peel_0
  by (simp add: xor_attempt_def run8_seeded_def on_ok_def)

lemma run8_loop: "xor_populate_loop run8_seeded [1, 2, 3] 3 11400714819323198486 = Some (Inr (run8_seeded, [\<lparr>hash = 13110481669377847333, index = 5\<rparr>, \<lparr>hash = 7639283029843589050, index = 1\<rparr>, \<lparr>hash = 7178537244092407270, index = 4\<rparr>]))"
  by (subst xor_populate_loop.simps) (simp add: run8_attempt)

lemma run8_assign: "xor_assign run8_seeded [\<lparr>hash = 7178537244092407270, index = 4\<rparr>, \<lparr>hash = 7639283029843589050, index = 1\<rparr>, \<lparr>hash = 13110481669377847333, index = 5\<rparr>] = Inr \<lparr>seed = 10451216379200822465, blockLength = 2, fingerprints = Some [0, 187, 0, 0, 113, 3]\<rparr>"
  by (simp add: run8_seeded_def run8_slots_7178537244092407270 run8_slots_7639283029843589050 run8_slots_13110481669377847333 xor_fingerprint_def Let_def on_ok_def array_get_def array_set_def)

lemma run8_seed: "run8_in\<lparr>seed := 10451216379200822465\<rparr> = run8_seeded"
  by (simp add: run8_in_def run8_seeded_def)

lemma run8_rng: "xor_rng_splitmix64 1 = (10451216379200822465, 11400714819323198486)"
  by (simp add: xor_rng_splitmix64_def Let_def)

lemma run8_populate:
  "xor8_populate (True, True, True) [1, 2, 3] 3 run8_in
     = Some (Inr (True, \<lparr>seed = 10451216379200822465, blockLength = 2, fingerprints = Some [0, 187, 0, 0, 113, 3]\<rparr>, []))"
  by (simp add: xor8_populate_def xor_populate_def run8_rng run8_seed run8_loop run8_assign Let_def
      xor_free_def List.map_filter_def del: xor_assign.simps)


lemma run16_get_5: "xor_get_h0_h1_h2 5 run16_seeded = \<lparr>h = 11727881928648552124, h0 = 0, h1 = 5, h2 = 6\<rparr>"
  by (simp add: run16_seeded_def hash_eval)

lemma run16_get_7: "xor_get_h0_h1_h2 7 run16_seeded = \<lparr>h = 4336727007295508913, h0 = 1, h1 = 3, h2 = 8\<rparr>"
  by (simp add: run16_seeded_def hash_eval)

lemma run16_get_11: "xor_get_h0_h1_h2 11 run16_seeded = \<lparr>h = 9700818741910625052, h0 = 1, h1 = 4, h2 = 7\<rparr>"
  by (simp add: run16_seeded_def hash_eval)

lemma run16_slots_11727881928648552124:
  "xor_get_just_h0_h1_h2 11727881928648552124 \<lparr>seed = s, blockLength = 3, fingerprints = X\<rparr>
     = \<lparr>h0' = 0, h1' = 5, h2' = 6\<rparr>"
  by (simp add: xor_get_just_h0_h1_h2_def hash_eval)

lemma run16_just_11727881928648552124: "xor_get_just_h0_h1_h2 11727881928648552124 run16_seeded = \<lparr>h0' = 0, h1' = 5, h2' = 6\<rparr>"
  by (simp add: run16_seeded_def run16_slots_11727881928648552124)

lemma run16_slots_4336727007295508913:
  "xor_get_just_h0_h1_h2 4336727007295508913 \<lparr>seed = s, blockLength = 3, fingerprints = X\<rparr>
     = \<lparr>h0' = 1, h1' = 3, h2' = 8\<rparr>"
  by (simp add: xor_get_just_h0_h1_h2_def hash_eval)

lemma run16_just_4336727007295508913: "xor_get_just_h0_h1_h2 4336727007295508913 run16_seeded = \<lparr>h0' = 1, h1' = 3, h2' = 8\<rparr>"
  by (simp add: run16_seeded_def run16_slots_4336727007295508913)

lemma run16_slots_9700818741910625052:
  "xor_get_just_h0_h1_h2 9700818741910625052 \<lparr>seed = s, blockLength = 3, fingerprints = X\<rparr>
     = \<lparr>h0' = 1, h1' = 4, h2' = 7\<rparr>"
  by (simp add: xor_get_just_h0_h1_h2_def hash_eval)

lemma run16_just_9700818741910625052: "xor_get_just_h0_h1_h2 9700818741910625052 run16_seeded = \<lparr>h0' = 1, h1' = 4, h2' = 7\<rparr>"
  by (simp add: run16_seeded_def run16_slots_9700818741910625052)

lemma run16_zero: "replicate 9 \<lparr>xormask = 0, count = 0\<rparr> = [\<lparr>xormask = 0, count = 0\<rparr>, \<lparr>xormask = 0, count = 0\<rparr>, \<lparr>xormask = 0, count = 0\<rparr>, \<lparr>xormask = 0, count = 0\<rparr>, \<lparr>xormask = 0, count = 0\<rparr>, \<lparr>xormask = 0, count = 0\<rparr>, \<lparr>xormask = 0, count = 0\<rparr>, \<lparr>xormask = 0, count = 0\<rparr>, \<lparr>xormask = 0, count = 0\<rparr>]"
  by (simp add: numeral_eq_Suc)

lemma run16_count: "xor_count_keys run16_seeded [5, 7, 11] (replicate 9 \<lparr>xormask = 0, count = 0\<rparr>) = Inr [\<lparr>xormask = 11727881928648552124, count = 1\<rparr>, \<lparr>xormask = 13442995314998495917, count = 2\<rparr>, \<lparr>xormask = 0, count = 0\<rparr>, \<lparr>xormask = 4336727007295508913, count = 1\<rparr>, \<lparr>xormask = 9700818741910625052, count = 1\<rparr>, \<lparr>xormask = 11727881928648552124, count = 1\<rparr>, \<lparr>xormask = 11727881928648552124, count = 1\<rparr>, \<lparr>xormask = 9700818741910625052, count = 1\<rparr>, \<lparr>xormask = 4336727007295508913, count = 1\<rparr>]"
  by (simp add: run16_zero run16_get_5 run16_get_7 run16_get_11 Let_def xor_slot_add_def on_ok_def array_get_def array_set_def)

lemma run16_scan: "xor_scan [0..<9] [\<lparr>xormask = 11727881928648552124, count = 1\<rparr>, \<lparr>xormask = 13442995314998495917, count = 2\<rparr>, \<lparr>xormask = 0, count = 0\<rparr>, \<lparr>xormask = 4336727007295508913, count = 1\<rparr>, \<lparr>xormask = 9700818741910625052, count = 1\<rparr>, \<lparr>xormask = 11727881928648552124, count = 1\<rparr>, \<lparr>xormask = 11727881928648552124, count = 1\<rparr>, \<lparr>xormask = 9700818741910625052, count = 1\<rparr>, \<lparr>xormask = 4336727007295508913, count = 1\<rparr>] 9 [] = Inr [0, 3, 4, 5, 6, 7, 8]"
  by (simp add: upt_conv_Cons on_ok_def array_get_def xor_push_def)

lemma run16_step_0:
  "xor_peel_step run16_seeded 9 3 ([\<lparr>xormask = 11727881928648552124, count = 1\<rparr>, \<lparr>xormask = 13442995314998495917, count = 2\<rparr>, \<lparr>xormask = 0, count = 0\<rparr>, \<lparr>xormask = 4336727007295508913, count = 1\<rparr>, \<lparr>xormask = 9700818741910625052, count = 1\<rparr>, \<lparr>xormask = 11727881928648552124, count = 1\<rparr>, \<lparr>xormask = 11727881928648552124, count = 1\<rparr>, \<lparr>xormask = 9700818741910625052, count = 1\<rparr>, \<lparr>xormask = 4336727007295508913, count = 1\<rparr>], [0, 3, 4, 5, 6, 7, 8], [])
     = Inr ([\<lparr>xormask = 11727881928648552124, count = 1\<rparr>, \<lparr>xormask = 9700818741910625052, count = 1\<rparr>, \<lparr>xormask = 0, count = 0\<rparr>, \<lparr>xormask = 0, count = 0\<rparr>, \<lparr>xormask = 9700818741910625052, count = 1\<rparr>, \<lparr>xormask = 11727881928648552124, count = 1\<rparr>, \<lparr>xormask = 11727881928648552124, count = 1\<rparr>, \<lparr>xormask = 9700818741910625052, count = 1\<rparr>, \<lparr>xormask = 0, count = 0\<rparr>], [0, 3, 4, 5, 6, 7, 1], [\<lparr>hash = 4336727007295508913, index = 8\<rparr>])"
  by (simp add: xor_peel_step_def run16_just_11727881928648552124 run16_just_4336727007295508913 run16_just_9700818741910625052 xor_slot_sub_def xor_push_if_one_def xor_push_def
      on_ok_def array_get_def array_set_def)

lemma run16_step_1:
  "xor_peel_step run16_seeded 9 3 ([\<lparr>xormask = 11727881928648552124, count = 1\<rparr>, \<lparr>xormask = 9700818741910625052, count = 1\<rparr>, \<lparr>xormask = 0, count = 0\<rparr>, \<lparr>xormask = 0, count = 0\<rparr>, \<lparr>xormask = 9700818741910625052, count = 1\<rparr>, \<lparr>xormask = 11727881928648552124, count = 1\<rparr>, \<lparr>xormask = 11727881928648552124, count = 1\<rparr>, \<lparr>xormask = 9700818741910625052, count = 1\<rparr>, \<lparr>xormask = 0, count = 0\<rparr>], [0, 3, 4, 5, 6, 7, 1], [\<lparr>hash = 4336727007295508913, index = 8\<rparr>])
     = Inr ([\<lparr>xormask = 11727881928648552124, count = 1\<rparr>, \<lparr>xormask = 0, count = 0\<rparr>, \<lparr>xormask = 0, count = 0\<rparr>, \<lparr>xormask = 0, count = 0\<rparr>, \<lparr>xormask = 0, count = 0\<rparr>, \<lparr>xormask = 11727881928648552124, count = 1\<rparr>, \<lparr>xormask = 11727881928648552124, count = 1\<rparr>, \<lparr>xormask = 0, count = 0\<rparr>, \<lparr>xormask = 0, count = 0\<rparr>], [0, 3, 4, 5, 6, 7], [\<lparr>hash = 4336727007295508913, index = 8\<rparr>, \<lparr>hash = 9700818741910625052, index = 1\<rparr>])"
  by (simp add: xor_peel_step_def run16_just_11727881928648552124 run16_just_4336727007295508913 run16_just_9700818741910625052 xor_slot_sub_def xor_push_if_one_def xor_push_def
      on_ok_def array_get_def array_set_def)

lemma run16_step_2:
  "xor_peel_step run16_seeded 9 3 ([\<lparr>xormask = 11727881928648552124, count = 1\<rparr>, \<lparr>xormask = 0, count = 0\<rparr>, \<lparr>xormask = 0, count = 0\<rparr>, \<lparr>xormask = 0, count = 0\<rparr>, \<lparr>xormask = 0, count = 0\<rparr>, \<lparr>xormask = 11727881928648552124, count = 1\<rparr>, \<lparr>xormask = 11727881928648552124, count = 1\<rparr>, \<lparr>xormask = 0, count = 0\<rparr>, \<lparr>xormask = 0, count = 0\<rparr>], [0, 3, 4, 5, 6, 7], [\<lparr>hash = 4336727007295508913, index = 8\<rparr>, \<lparr>hash = 9700818741910625052, index = 1\<rparr>])
     = Inr ([\<lparr>xormask = 11727881928648552124, count = 1\<rparr>, \<lparr>xormask = 0, count = 0\<rparr>, \<lparr>xormask = 0, count = 0\<rparr>, \<lparr>xormask = 0, count = 0\<rparr>, \<lparr>xormask = 0, count = 0\<rparr>, \<lparr>xormask = 11727881928648552124, count = 1\<rparr>, \<lparr>xormask = 11727881928648552124, count = 1\<rparr>, \<lparr>xormask = 0, count = 0\<rparr>, \<lparr>xormask = 0, count = 0\<rparr>], [0, 3, 4, 5, 6], [\<lparr>hash = 4336727007295508913, index = 8\<rparr>, \<lparr>hash = 9700818741910625052, index = 1\<rparr>])"
  by (simp add: xor_peel_step_def run16_just_11727881928648552124 run16_just_4336727007295508913 run16_just_9700818741910625052 xor_slot_sub_def xor_push_if_one_def xor_push_def
      on_ok_def array_get_def array_set_def)

lemma run16_step_3:
  "xor_peel_step run16_seeded 9 3 ([\<lparr>xormask = 11727881928648552124, count = 1\<rparr>, \<lparr>xormask = 0, count = 0\<rparr>, \<lparr>xormask = 0, count = 0\<rparr>, \<lparr>xormask = 0, count = 0\<rparr>, \<lparr>xormask = 0, count = 0\<rparr>, \<lparr>xormask = 11727881928648552124, count = 1\<rparr>, \<lparr>xormask = 11727881928648552124, count = 1\<rparr>, \<lparr>xormask = 0, count = 0\<rparr>, \<lparr>xormask = 0, count = 0\<rparr>], [0, 3, 4, 5, 6], [\<lparr>hash = 4336727007295508913, index = 8\<rparr>, \<lparr>hash = 9700818741910625052, index = 1\<rparr>])
     = Inr ([\<lparr>xormask = 0, count = 0\<rparr>, \<lparr>xormask = 0, count = 0\<rparr>, \<lparr>xormask = 0, count = 0\<rparr>, \<lparr>xormask = 0, count = 0\<rparr>, \<lparr>xormask = 0, count = 0\<rparr>, \<lparr>xormask = 0, count = 0\<rparr>, \<lparr>xormask = 0, count = 0\<rparr>, \<lparr>xormask = 0, count = 0\<rparr>, \<lparr>xormask = 0, count = 0\<rparr>], [0, 3, 4, 5], [\<lparr>hash = 4336727007295508913, index = 8\<rparr>, \<lparr>hash = 9700818741910625052, index = 1\<rparr>, \<lparr>hash = 11727881928648552124, index = 6\<rparr>])"
  by (simp add: xor_peel_step_def run16_just_11727881928648552124 run16_just_4336727007295508913 run16_just_9700818741910625052 xor_slot_sub_def xor_push_if_one_def xor_push_def
      on_ok_def array_get_def array_set_def)

lemma run16_step_4:
  "xor_peel_step run16_seeded 9 3 ([\<lparr>xormask = 0, count = 0\<rparr>, \<lparr>xormask = 0, count = 0\<rparr>, \<lparr>xormask = 0, count = 0\<rparr>, \<lparr>xormask = 0, count = 0\<rparr>, \<lparr>xormask = 0, count = 0\<rparr>, \<lparr>xormask = 0, count = 0\<rparr>, \<lparr>xormask = 0, count = 0\<rparr>, \<lparr>xormask = 0, count = 0\<rparr>, \<lparr>xormask = 0, count = 0\<rparr>], [0, 3, 4, 5], [\<lparr>hash = 4336727007295508913, index = 8\<rparr>, \<lparr>hash = 9700818741910625052, index = 1\<rparr>, \<lparr>hash = 11727881928648552124, index = 6\<rparr>])
     = Inr ([\<lparr>xormask = 0, count = 0\<rparr>, \<lparr>xormask = 0, count = 0\<rparr>, \<lparr>xormask = 0, count = 0\<rparr>, \<lparr>xormask = 0, count = 0\<rparr>, \<lparr>xormask = 0, count = 0\<rparr>, \<lparr>xormask = 0, count = 0\<rparr>, \<lparr>xormask = 0, count = 0\<rparr>, \<lparr>xormask = 0, count = 0\<rparr>, \<lparr>xormask = 0, count = 0\<rparr>], [0, 3, 4], [\<lparr>hash = 4336727007295508913, index = 8\<rparr>, \<lparr>hash = 9700818741910625052, index = 1\<rparr>, \<lparr>hash = 11727881928648552124, index = 6\<rparr>])"
  by (simp add: xor_peel_step_def run16_just_11727881928648552124 run16_just_4336727007295508913 run16_just_9700818741910625052 xor_slot_sub_def xor_push_if_one_def xor_push_def
      on_ok_def array_get_def array_set_def)

lemma run16_step_5:
  "xor_peel_step run16_seeded 9 3 ([\<lparr>xormask = 0, count = 0\<rparr>, \<lparr>xormask = 0, count = 0\<rparr>, \<lparr>xormask = 0, count = 0\<rparr>, \<lparr>xormask = 0, count = 0\<rparr>, \<lparr>xormask = 0, count = 0\<rparr>, \<lparr>xormask = 0, count = 0\<rparr>, \<lparr>xormask = 0, count = 0\<rparr>, \<lparr>xormask = 0, count = 0\<rparr>, \<lparr>xormask = 0, count = 0\<rparr>], [0, 3, 4], [\<lparr>hash = 4336727007295508913, index = 8\<rparr>, \<lparr>hash = 9700818741910625052, index = 1\<rparr>, \<lparr>hash = 11727881928648552124, index = 6\<rparr>])
     = Inr ([\<lparr>xormask = 0, count = 0\<rparr>, \<lparr>xormask = 0, count = 0\<rparr>, \<lparr>xormask = 0, count = 0\<rparr>, \<lparr>xormask = 0, count = 0\<rparr>, \<lparr>xormask = 0, count = 0\<rparr>, \<lparr>xormask = 0, count = 0\<rparr>, \<lparr>xormask = 0, count = 0\<rparr>, \<lparr>xormask = 0, count = 0\<rparr>, \<lparr>xormask = 0, count = 0\<rparr>], [0, 3], [\<lparr>hash = 4336727007295508913, index = 8\<rparr>, \<lparr>hash = 9700818741910625052, index = 1\<rparr>, \<lparr>hash = 11727881928648552124, index = 6\<rparr>])"
  by (simp add: xor_peel_step_def run16_just_11727881928648552124 run16_just_4336727007295508913 run16_just_9700818741910625052 xor_slot_sub_def xor_push_if_one_def xor_push_def
      on_ok_def array_get_def array_set_def)

lemma run16_step_6:
  "xor_peel_step run16_seeded 9 3 ([\<lparr>xormask = 0, count = 0\<rparr>, \<lparr>xormask = 0, count = 0\<rparr>, \<lparr>xormask = 0, count = 0\<rparr>, \<lparr>xormask = 0, count = 0\<rparr>, \<lparr>xormask = 0, count = 0\<rparr>, \<lparr>xormask = 0, count = 0\<rparr>, \<lparr>xormask = 0, count = 0\<rparr>, \<lparr>xormask = 0, count = 0\<rparr>, \<lparr>xormask = 0, count = 0\<rparr>], [0, 3], [\<lparr>hash = 4336727007295508913, index = 8\<rparr>, \<lparr>hash = 9700818741910625052, index = 1\<rparr>, \<lparr>hash = 11727881928648552124, index = 6\<rparr>])
     = Inr ([\<lparr>xormask = 0, count = 0\<rparr>, \<lparr>xormask = 0, count = 0\<rparr>, \<lparr>xormask = 0, count = 0\<rparr>, \<lparr>xormask = 0, count = 0\<rparr>, \<lparr>xormask = 0, count = 0\<rparr>, \<lparr>xormask = 0, count = 0\<rparr>, \<lparr>xormask = 0, count = 0\<rparr>, \<lparr>xormask = 0, count = 0\<rparr>, \<lparr>xormask = 0, count = 0\<rparr>], [0], [\<lparr>hash = 4336727007295508913, index = 8\<rparr>, \<lparr>hash = 9700818741910625052, index = 1\<rparr>, \<lparr>hash = 11727881928648552124, index = 6\<rparr>])"
  by (simp add: xor_peel_step_def run16_just_11727881928648552124 run16_just_4336727007295508913 run16_just_9700818741910625052 xor_slot_sub_def xor_push_if_one_def xor_push_def
      on_ok_def array_get_def array_set_def)

lemma run16_step_7:
  "xor_peel_step run16_seeded 9 3 ([\<lparr>xormask = 0, count = 0\<rparr>, \<lparr>xormask = 0, count = 0\<rparr>, \<lparr>xormask = 0, count = 0\<rparr>, \<lparr>xormask = 0, count = 0\<rparr>, \<lparr>xormask = 0, count = 0\<rparr>, \<lparr>xormask = 0, count = 0\<rparr>, \<lparr>xormask = 0, count = 0\<rparr>, \<lparr>xormask = 0, count = 0\<rparr>, \<lparr>xormask = 0, count = 0\<rparr>], [0], [\<lparr>hash = 4336727007295508913, index = 8\<rparr>, \<lparr>hash = 9700818741910625052, index = 1\<rparr>, \<lparr>hash = 11727881928648552124, index = 6\<rparr>])
     = Inr ([\<lparr>xormask = 0, count = 0\<rparr>, \<lparr>xormask = 0, count = 0\<rparr>, \<lparr>xormask = 0, count = 0\<rparr>, \<lparr>xormask = 0, count = 0\<rparr>, \<lparr>xormask = 0, count = 0\<rparr>, \<lparr>xormask = 0, count = 0\<rparr>, \<lparr>xormask = 0, count = 0\<rparr>, \<lparr>xormask = 0, count = 0\<rparr>, \<lparr>xormask = 0, count = 0\<rparr>], [], [\<lparr>hash = 4336727007295508913, index = 8\<rparr>, \<lparr>hash = 9700818741910625052, index = 1\<rparr>, \<lparr>hash = 11727881928648552124, index = 6\<rparr>])"
  by (simp add: xor_peel_step_def run16_just_11727881928648552124 run16_just_4336727007295508913 run16_just_9700818741910625052 xor_slot_sub_def xor_push_if_one_def xor_push_def
      on_ok_def array_get_def array_set_def)

lemma run16_peel_8:
  "xor_peel run16_seeded 9 3 [\<lparr>xormask = 0, count = 0\<rparr>, \<lparr>xormask = 0, count = 0\<rparr>, \<lparr>xormask = 0, count = 0\<rparr>, \<lparr>xormask = 0, count = 0\<rparr>, \<lparr>xormask = 0, count = 0\<rparr>, \<lparr>xormask = 0, count = 0\<rparr>, \<lparr>xormask = 0, count = 0\<rparr>, \<lparr>xormask = 0, count = 0\<rparr>, \<lparr>xormask = 0, count = 0\<rparr>] [] [\<lparr>hash = 4336727007295508913, index = 8\<rparr>, \<lparr>hash = 9700818741910625052, index = 1\<rparr>, \<lparr>hash = 11727881928648552124, index = 6\<rparr>] = Inr [\<lparr>hash = 4336727007295508913, index = 8\<rparr>, \<lparr>hash = 9700818741910625052, index = 1\<rparr>, \<lparr>hash = 11727881928648552124, index = 6\<rparr>]"
  by (subst xor_peel.simps) simp

lemma run16_peel_7:
  "xor_peel run16_seeded 9 3 [\<lparr>xormask = 0, count = 0\<rparr>, \<lparr>xormask = 0, count = 0\<rparr>, \<lparr>xormask = 0, count = 0\<rparr>, \<lparr>xormask = 0, count = 0\<rparr>, \<lparr>xormask = 0, count = 0\<rparr>, \<lparr>xormask = 0, count = 0\<rparr>, \<lparr>xormask = 0, count = 0\<rparr>, \<lparr>xormask = 0, count = 0\<rparr>, \<lparr>xormask = 0, count = 0\<rparr>] [0] [\<lparr>hash = 4336727007295508913, index = 8\<rparr>, \<lparr>hash = 9700818741910625052, index = 1\<rparr>, \<lparr>hash = 11727881928648552124, index = 6\<rparr>] = Inr [\<lparr>hash = 4336727007295508913, index = 8\<rparr>, \<lparr>hash = 9700818741910625052, index = 1\<rparr>, \<lparr>hash = 11727881928648552124, index = 6\<rparr>]"
  by (subst xor_peel.simps) (simp add: run16_step_7 run16_peel_8)

lemma run16_peel_6:
  "xor_peel run16_seeded 9 3 [\<lparr>xormask = 0, count = 0\<rparr>, \<lparr>xormask = 0, count = 0\<rparr>, \<lparr>xormask = 0, count = 0\<rparr>, \<lparr>xormask = 0, count = 0\<rparr>, \<lparr>xormask = 0, count = 0\<rparr>, \<lparr>xormask = 0, count = 0\<rparr>, \<lparr>xormask = 0, count = 0\<rparr>, \<lparr>xormask = 0, count = 0\<rparr>, \<lparr>xormask = 0, count = 0\<rparr>] [0, 3] [\<lparr>hash = 4336727007295508913, index = 8\<rparr>, \<lparr>hash = 9700818741910625052, index = 1\<rparr>, \<lparr>hash = 11727881928648552124, index = 6\<rparr>] = Inr [\<lparr>hash = 4336727007295508913, index = 8\<rparr>, \<lparr>hash = 9700818741910625052, index = 1\<rparr>, \<lparr>hash = 11727881928648552124, index = 6\<rparr>]"
  by (subst xor_peel.simps) (simp add: run16_step_6 run16_peel_7)

lemma run16_peel_5:
  "xor_peel run16_seeded 9 3 [\<lparr>xormask = 0, count = 0\<rparr>, \<lparr>xormask = 0, count = 0\<rparr>, \<lparr>xormask = 0, count = 0\<rparr>, \<lparr>xormask = 0, count = 0\<rparr>, \<lparr>xormask = 0, count = 0\<rparr>, \<lparr>xormask = 0, count = 0\<rparr>, \<lparr>xormask = 0, count = 0\<rparr>, \<lparr>xormask = 0, count = 0\<rparr>, \<lparr>xormask = 0, count = 0\<rparr>] [0, 3, 4] [\<lparr>hash = 4336727007295508913, index = 8\<rparr>, \<lparr>hash = 9700818741910625052, index = 1\<rparr>, \<lparr>hash = 11727881928648552124, index = 6\<rparr>] = Inr [\<lparr>hash = 4336727007295508913, index = 8\<rparr>, \<lparr>hash = 9700818741910625052, index = 1\<rparr>, \<lparr>hash = 11727881928648552124, index = 6\<rparr>]"
  by (subst xor_peel.simps) (simp add: run16_step_5 run16_peel_6)

lemma run16_peel_4:
  "xor_peel run16_seeded 9 3 [\<lparr>xormask = 0, count = 0\<rparr>, \<lparr>xormask = 0, count = 0\<rparr>, \<lparr>xormask = 0, count = 0\<rparr>, \<lparr>xormask = 0, count = 0\<rparr>, \<lparr>xormask = 0, count = 0\<rparr>, \<lparr>xormask = 0, count = 0\<rparr>, \<lparr>xormask = 0, count = 0\<rparr>, \<lparr>xormask = 0, count = 0\<rparr>, \<lparr>xormask = 0, count = 0\<rparr>] [0, 3, 4, 5] [\<lparr>hash = 4336727007295508913, index = 8\<rparr>, \<lparr>hash = 9700818741910625052, index = 1\<rparr>, \<lparr>hash = 11727881928648552124, index = 6\<rparr>] = Inr [\<lparr>hash = 4336727007295508913, index = 8\<rparr>, \<lparr>hash = 9700818741910625052, index = 1\<rparr>, \<lparr>hash = 11727881928648552124, index = 6\<rparr>]"
  by (subst xor_peel.simps) (simp add: run16_step_4 run16_peel_5)

lemma run16_peel_3:
  "xor_peel run16_seeded 9 3 [\<lparr>xormask = 11727881928648552124, count = 1\<rparr>, \<lparr>xormask = 0, count = 0\<rparr>, \<lparr>xormask = 0, count = 0\<rparr>, \<lparr>xormask = 0, count = 0\<rparr>, \<lparr>xormask = 0, count = 0\<rparr>, \<lparr>xormask = 11727881928648552124, count = 1\<rparr>, \<lparr>xormask = 11727881928648552124, count = 1\<rparr>, \<lparr>xormask = 0, count = 0\<rparr>, \<lparr>xormask = 0, count = 0\<rparr>] [0, 3, 4, 5, 6] [\<lparr>hash = 4336727007295508913, index = 8\<rparr>, \<lparr>hash = 9700818741910625052, index = 1\<rparr>] = Inr [\<lparr>hash = 4336727007295508913, index = 8\<rparr>, \<lparr>hash = 9700818741910625052, index = 1\<rparr>, \<lparr>hash = 11727881928648552124, index = 6\<rparr>]"
  by (subst xor_peel.simps) (simp add: run16_step_3 run16_peel_4)

lemma run16_peel_2:
  "xor_peel run16_seeded 9 3 [\<lparr>xormask = 11727881928648552124, count = 1\<rparr>, \<lparr>xormask = 0, count = 0\<rparr>, \<lparr>xormask = 0, count = 0\<rparr>, \<lparr>xormask = 0, count = 0\<rparr>, \<lparr>xormask = 0, count = 0\<rparr>, \<lparr>xormask = 11727881928648552124, count = 1\<rparr>, \<lparr>xormask = 11727881928648552124, count = 1\<rparr>, \<lparr>xormask = 0, count = 0\<rparr>, \<lparr>xormask = 0, count = 0\<rparr>] [0, 3, 4, 5, 6, 7] [\<lparr>hash = 4336727007295508913, index = 8\<rparr>, \<lparr>hash = 9700818741910625052, index = 1\<rparr>] = Inr [\<lparr>hash = 4336727007295508913, index = 8\<rparr>, \<lparr>hash = 9700818741910625052, index = 1\<rparr>, \<lparr>hash = 11727881928648552124, index = 6\<rparr>]"
  by (subst xor_peel.simps) (simp add: run16_step_2 run16_peel_3)

lemma run16_peel_1:
  "xor_peel run16_seeded 9 3 [\<lparr>xormask = 11727881928648552124, count = 1\<rparr>, \<lparr>xormask = 9700818741910625052, count = 1\<rparr>, \<lparr>xormask = 0, count = 0\<rparr>, \<lparr>xormask = 0, count = 0\<rparr>, \<lparr>xormask = 9700818741910625052, count = 1\<rparr>, \<lparr>xormask = 11727881928648552124, count = 1\<rparr>, \<lparr>xormask = 11727881928648552124, count = 1\<rparr>, \<lparr>xormask = 9700818741910625052, count = 1\<rparr>, \<lparr>xormask = 0, count = 0\<rparr>] [0, 3, 4, 5, 6, 7, 1] [\<lparr>hash = 4336727007295508913, index = 8\<rparr>] = Inr [\<lparr>hash = 4336727007295508913, index = 8\<rparr>, \<lparr>hash = 9700818741910625052, index = 1\<rparr>, \<lparr>hash = 11727881928648552124, index = 6\<rparr>]"
  by (subst xor_peel.simps) (simp add: run16_step_1 run16_peel_2)

lemma run16_peel_0:
  "xor_peel run16_seeded 9 3 [\<lparr>xormask = 11727881928648552124, count = 1\<rparr>, \<lparr>xormask = 13442995314998495917, count = 2\<rparr>, \<lparr>xormask = 0, count = 0\<rparr>, \<lparr>xormask = 4336727007295508913, count = 1\<rparr>, \<lparr>xormask = 9700818741910625052, count = 1\<rparr>, \<lparr>xormask = 11727881928648552124, count = 1\<rparr>, \<lparr>xormask = 11727881928648552124, count = 1\<rparr>, \<lparr>xormask = 9700818741910625052, count = 1\<rparr>, \<lparr>xormask = 4336727007295508913, count = 1\<rparr>] [0, 3, 4, 5, 6, 7, 8] [] = Inr [\<lparr>hash = 4336727007295508913, index = 8\<rparr>, \<lparr>hash = 9700818741910625052, index = 1\<rparr>, \<lparr>hash = 11727881928648552124, index = 6\<rparr>]"
  by (subst xor_peel.simps) (simp add: run16_step_0 run16_peel_1)

lemma run16_attempt: "xor_attempt run16_seeded [5, 7, 11] 3 = Inr [\<lparr>hash = 4336727007295508913, index = 8\<rparr>, \<lparr>hash = 9700818741910625052, index = 1\<rparr>, \<lparr>hash = 11727881928648552124, index = 6\<rparr>]"
  using run16_count run16_scan run16_peel_0
  by (simp add: xor_attempt_def run16_seeded_def on_ok_def)

lemma run16_loop: "xor_populate_loop run16_seeded [5, 7, 11] 3 11400714819323198486 = Some (Inr (run16_seeded, [\<lparr>hash = 4336727007295508913, index = 8\<rparr>, \<lparr>hash = 9700818741910625052, index = 1\<rparr>, \<lparr>hash = 11727881928648552124, index = 6\<rparr>]))"
  by (subst xor_populate_loop.simps) (simp add: run16_attempt)

lemma run16_assign: "xor_assign run16_seeded [\<lparr>hash = 11727881928648552124, index = 6\<rparr>, \<lparr>hash = 9700818741910625052, index = 1\<rparr>, \<lparr>hash = 4336727007295508913, index = 8\<rparr>] = Inr \<lparr>seed = 10451216379200822465, blockLength = 3, fingerprints = Some [0, 57379, 0, 0, 0, 0, 8390, 0, 55214]\<rparr>"
  by (simp add: run16_seeded_def run16_slots_11727881928648552124 run16_slots_4336727007295508913 run16_slots_9700818741910625052 xor_fingerprint_def Let_def on_ok_def array_get_def array_set_def)

lemma run16_seed: "run16_in\<lparr>seed := 10451216379200822465\<rparr> = run16_seeded"
  by (simp add: run16_in_def run16_seeded_def)

lemma run16_rng: "xor_rng_splitmix64 1 = (10451216379200822465, 11400714819323198486)"
  by (simp add: xor_rng_splitmix64_def Let_def)

lemma run16_populate:
  "xor16_populate (True, True, True) [5, 7, 11] 3 run16_in
     = Some (Inr (True, \<lparr>seed = 10451216379200822465, blockLength = 3, fingerprints = Some [0, 57379, 0, 0, 0, 0, 8390, 0, 55214]\<rparr>, []))"
  by (simp add: xor16_populate_def xor_populate_def run16_rng run16_seed run16_loop run16_assign Let_def
      xor_free_def List.map_filter_def del: xor_assign.simps)


lemma run8_populate_example:
  "xor8_populate (True, True, True) [1, 2, 3] 3 run8_in = Some (Inr (True, example8, []))"
  by (simp add: run8_populate example8_def)

lemma run16_populate_example:
  "xor16_populate (True, True, True) [5, 7, 11] 3 run16_in = Some (Inr (True, example16, []))"
  by (simp add: run16_populate example16_def)

section \<open>Claims about the hash kernel and the query\<close>

text \<open>
  Claim C3, as amended. The hash is the Murmur3 finalizer of \<open>k + seed\<close> modulo
  \<open>2 ^ 64\<close>; \<open>r0\<close>, \<open>r1\<close>, \<open>r2\<close> are the low 32 bits of the hash and of the hash rotated
  left by 21 and by 42; the slot index of block \<open>i\<close> is
  \<open>((ri * (blockLength mod 2 ^ 32)) div 2 ^ 32 + i * blockLength) mod 2 ^ 32\<close>, which is the
  specification's \<open>((ri * blockLength) >> 32) + i * blockLength\<close> whenever
  \<open>3 * blockLength \<le> 2 ^ 32\<close>. \<^verbatim>\<open>xor8_get_h0_h1_h2\<close> and \<^verbatim>\<open>xor16_get_h0_h1_h2\<close> are the two
  instances of \<open>xor_get_h0_h1_h2\<close>.
\<close>

theorem xor_hash_derivation:
  fixes filt :: "'c xor_t"
  shows "unat (h (xor_get_h0_h1_h2 k filt)) = spec_murmur64 ((unat k + unat (seed filt)) mod 2 ^ 64)
       \<and> unat (h0 (xor_get_h0_h1_h2 k filt))
           = slot_cut32 0 (unat (h (xor_get_h0_h1_h2 k filt)) mod 2 ^ 32) (unat (blockLength filt))
       \<and> unat (h1 (xor_get_h0_h1_h2 k filt))
           = slot_cut32 1 (unat (word_rotl 21 (h (xor_get_h0_h1_h2 k filt))) mod 2 ^ 32)
               (unat (blockLength filt))
       \<and> unat (h2 (xor_get_h0_h1_h2 k filt))
           = slot_cut32 2 (unat (word_rotl 42 (h (xor_get_h0_h1_h2 k filt))) mod 2 ^ 32)
               (unat (blockLength filt))
       \<and> (3 * unat (blockLength filt) \<le> 2 ^ 32 \<longrightarrow>
            unat (h0 (xor_get_h0_h1_h2 k filt))
              = spec_slot 0 (unat (h (xor_get_h0_h1_h2 k filt)) mod 2 ^ 32) (unat (blockLength filt))
          \<and> unat (h1 (xor_get_h0_h1_h2 k filt))
              = spec_slot 1 (unat (word_rotl 21 (h (xor_get_h0_h1_h2 k filt))) mod 2 ^ 32)
                  (unat (blockLength filt))
          \<and> unat (h2 (xor_get_h0_h1_h2 k filt))
              = spec_slot 2 (unat (word_rotl 42 (h (xor_get_h0_h1_h2 k filt))) mod 2 ^ 32)
                  (unat (blockLength filt)))"
proof -
  have "unat (h (xor_get_h0_h1_h2 k filt)) = spec_murmur64 ((unat k + unat (seed filt)) mod 2 ^ 64)"
    by (simp only: get_fields(1) unat_murmur64 unat_word_ariths(1)) simp
  moreover have "3 * unat (blockLength filt) \<le> 2 ^ 32 \<Longrightarrow> i \<le> 2 \<Longrightarrow>
      slot_cut32 i (r mod 2 ^ 32) (unat (blockLength filt))
        = spec_slot i (r mod 2 ^ 32) (unat (blockLength filt))" for i r
    by (rule slot_cut32_spec) simp_all
  ultimately show ?thesis
    by (simp only: unat_get_slots) simp
qed

theorem xor_hash_derivation_witness:
  "3 * unat (blockLength example8) \<le> 2 ^ 32
   \<and> unat (h2 (xor_get_h0_h1_h2 1 example8))
       = spec_slot 2 (unat (word_rotl 42 (h (xor_get_h0_h1_h2 1 example8))) mod 2 ^ 32)
           (unat (blockLength example8))"
  using xor_hash_derivation [of 1 example8] by (simp add: example8_def)

text \<open>
  The claim as it is stated fails where \<open>2 ^ 32 < 3 * blockLength\<close>: for the key 24 in
  \<open>wrap_filter\<close> the code's \<^verbatim>\<open>h2\<close> is 167088614, and the specification's formula gives
  4462055910.
\<close>

theorem xor_hash_derivation_counterexample:
  "unat (h2 (xor8_get_h0_h1_h2 24 wrap_filter)) = 167088614
   \<and> spec_slot 2 (unat (ucast (xor_rotl64 (h (xor8_get_h0_h1_h2 24 wrap_filter)) 42) :: 32 word))
         (unat (blockLength wrap_filter)) = 4462055910"
  by (simp add: xor8_get_h0_h1_h2_def wrap_filter_def hash_eval spec_slot_def)

lemma xor_contain_cases:
  fixes filt :: "('w::len) word xor_t"
  shows "xor_contain key filt =
           (case fingerprints filt of
              None \<Rightarrow> Inl NullPointer
            | Some F \<Rightarrow>
                if unat (h0 (xor_get_h0_h1_h2 key filt)) < length F
                   \<and> unat (h1 (xor_get_h0_h1_h2 key filt)) < length F
                   \<and> unat (h2 (xor_get_h0_h1_h2 key filt)) < length F
                then Inr (ucast (xor_fingerprint (h (xor_get_h0_h1_h2 key filt)))
                            = F ! unat (h0 (xor_get_h0_h1_h2 key filt))
                              XOR F ! unat (h1 (xor_get_h0_h1_h2 key filt))
                              XOR F ! unat (h2 (xor_get_h0_h1_h2 key filt)))
                else Inl OutOfBounds)"
proof (cases "fingerprints filt")
  case None
  then show ?thesis by (simp add: xor_contain_def Let_def)
next
  case (Some F)
  show ?thesis
    by (simp add: xor_contain_unfold [OF Some] Some array_get_def on_ok_def xor_eq_0_iff)
qed

lemma xor_allocated_reads:
  assumes "xor_allocated filt"
  shows "\<exists>F. fingerprints filt = Some F
           \<and> unat (h0 (xor_get_h0_h1_h2 key filt)) < length F
           \<and> unat (h1 (xor_get_h0_h1_h2 key filt)) < length F
           \<and> unat (h2 (xor_get_h0_h1_h2 key filt)) < length F"
proof -
  from assms obtain F where F: "fingerprints filt = Some F"
    and len: "length F = 3 * unat (blockLength filt)" and nz: "blockLength filt \<noteq> 0"
    by (auto simp: xor_allocated_def split: option.splits)
  from get_slots_in_array [OF nz, of key] F len show ?thesis by simp
qed

text \<open>
  Claim C2, as amended. \<^verbatim>\<open>xor8_contain\<close> (and \<^verbatim>\<open>xor16_contain\<close>) derives the hash and the
  three indices as \<^verbatim>\<open>xor8_get_h0_h1_h2\<close> does from the key and the filter's seed. When the
  filter's \<^verbatim>\<open>fingerprints\<close> is not \<^verbatim>\<open>NULL\<close> and the three indices lie in the array, it
  returns exactly the boolean \<open>fp = F[h0] XOR F[h1] XOR F[h2]\<close>, where \<open>fp\<close> is the
  fingerprint of the hash cut to the cell width; this is so on every allocated filter
  (\<open>3 * blockLength\<close> cells, \<open>blockLength\<close> not 0). Otherwise the call is undefined: it
  dereferences \<^verbatim>\<open>NULL\<close> or reads outside the array. The function returns the boolean
  only: the filter is not changed.
\<close>

theorem xor_contain_result:
  fixes f8 :: xor8_t and f16 :: xor16_t
  shows "xor8_contain key f8 =
           (case fingerprints f8 of
              None \<Rightarrow> Inl NullPointer
            | Some F \<Rightarrow>
                if unat (h0 (xor8_get_h0_h1_h2 key f8)) < length F
                   \<and> unat (h1 (xor8_get_h0_h1_h2 key f8)) < length F
                   \<and> unat (h2 (xor8_get_h0_h1_h2 key f8)) < length F
                then Inr (ucast (xor_fingerprint (h (xor8_get_h0_h1_h2 key f8)))
                            = F ! unat (h0 (xor8_get_h0_h1_h2 key f8))
                              XOR F ! unat (h1 (xor8_get_h0_h1_h2 key f8))
                              XOR F ! unat (h2 (xor8_get_h0_h1_h2 key f8)))
                else Inl OutOfBounds)
       \<and> (xor_allocated f8 \<longrightarrow>
            (\<exists>F. fingerprints f8 = Some F
               \<and> unat (h0 (xor8_get_h0_h1_h2 key f8)) < length F
               \<and> unat (h1 (xor8_get_h0_h1_h2 key f8)) < length F
               \<and> unat (h2 (xor8_get_h0_h1_h2 key f8)) < length F))
       \<and> xor16_contain key' f16 =
           (case fingerprints f16 of
              None \<Rightarrow> Inl NullPointer
            | Some F \<Rightarrow>
                if unat (h0 (xor16_get_h0_h1_h2 key' f16)) < length F
                   \<and> unat (h1 (xor16_get_h0_h1_h2 key' f16)) < length F
                   \<and> unat (h2 (xor16_get_h0_h1_h2 key' f16)) < length F
                then Inr (ucast (xor_fingerprint (h (xor16_get_h0_h1_h2 key' f16)))
                            = F ! unat (h0 (xor16_get_h0_h1_h2 key' f16))
                              XOR F ! unat (h1 (xor16_get_h0_h1_h2 key' f16))
                              XOR F ! unat (h2 (xor16_get_h0_h1_h2 key' f16)))
                else Inl OutOfBounds)
       \<and> (xor_allocated f16 \<longrightarrow>
            (\<exists>F. fingerprints f16 = Some F
               \<and> unat (h0 (xor16_get_h0_h1_h2 key' f16)) < length F
               \<and> unat (h1 (xor16_get_h0_h1_h2 key' f16)) < length F
               \<and> unat (h2 (xor16_get_h0_h1_h2 key' f16)) < length F))"
  unfolding xor8_contain_def xor16_contain_def xor8_get_h0_h1_h2_def xor16_get_h0_h1_h2_def
  by (intro conjI impI xor_contain_cases xor_allocated_reads)

theorem xor_contain_result_witness:
  "xor_allocated example8 \<and> xor_allocated example16
   \<and> (\<exists>F. fingerprints example8 = Some F
         \<and> unat (h0 (xor8_get_h0_h1_h2 1 example8)) < length F
         \<and> unat (h1 (xor8_get_h0_h1_h2 1 example8)) < length F
         \<and> unat (h2 (xor8_get_h0_h1_h2 1 example8)) < length F)
   \<and> (\<exists>F. fingerprints example16 = Some F
         \<and> unat (h0 (xor16_get_h0_h1_h2 5 example16)) < length F
         \<and> unat (h1 (xor16_get_h0_h1_h2 5 example16)) < length F
         \<and> unat (h2 (xor16_get_h0_h1_h2 5 example16)) < length F)
   \<and> xor8_contain 1 example8 = Inr True \<and> xor16_contain 5 example16 = Inr True"
proof -
  have a: "xor_allocated example8" and c: "xor_allocated example16"
    by (simp_all add: xor_allocated_def example8_def example16_def)
  note t = xor_contain_result [of 1 example8 5 example16]
  note r8 = t [THEN conjunct2, THEN conjunct1, THEN mp, OF a]
  note r16 = t [THEN conjunct2, THEN conjunct2, THEN conjunct2, THEN mp, OF c]
  have e8: "xor8_contain 1 example8 = Inr True"
    using t [THEN conjunct1]
    by (simp add: xor8_get_h0_h1_h2_def example8_def hash_eval)
  have e16: "xor16_contain 5 example16 = Inr True"
    using t [THEN conjunct2, THEN conjunct2, THEN conjunct1]
    by (simp add: xor16_get_h0_h1_h2_def example16_def hash_eval)
  from a c r8 r16 e8 e16 show ?thesis by (intro conjI)
qed

text \<open>
  The claim as it is stated, for every filter and without an error condition, fails on
  the filter that \<^verbatim>\<open>xor8_free\<close> leaves: \<^verbatim>\<open>xor8_contain\<close> dereferences \<^verbatim>\<open>NULL\<close>.
\<close>

theorem xor_contain_result_counterexample:
  "xor8_contain 1 (xor8_free example8) = Inl NullPointer"
  by (simp add: xor8_contain_def xor_contain_def xor8_free_def example8_def Let_def)

section \<open>Claims about failed allocations\<close>

text \<open>
  Claim C9. When \<^verbatim>\<open>malloc\<close> refuses one of the three scratch blocks, \<^verbatim>\<open>xor8_populate\<close> (and
  \<^verbatim>\<open>xor16_populate\<close>) returns false, holds no scratch block when it returns, and leaves
  \<^verbatim>\<open>blockLength\<close> and \<^verbatim>\<open>fingerprints\<close> as they were; the seed is the first output of
  splitmix64 for the counter 1, whatever it was before.
\<close>

theorem xor_populate_scratch_failure:
  fixes f8 :: xor8_t and f16 :: xor16_t
  assumes "\<not> (fst m \<and> fst (snd m) \<and> snd (snd m))"
  shows "xor8_populate m keys sz f8
           = Some (Inr (False, f8\<lparr>seed := fst (xor_rng_splitmix64 1)\<rparr>, []))
       \<and> xor16_populate m keys sz f16
           = Some (Inr (False, f16\<lparr>seed := fst (xor_rng_splitmix64 1)\<rparr>, []))"
  using assms
  by (auto simp: xor8_populate_def xor16_populate_def xor_populate_def Let_def xor_free_def
      List.map_filter_simps split: prod.splits)


theorem xor_populate_scratch_failure_witness:
  "\<not> (fst (True, False, True) \<and> fst (snd (True, False, True)) \<and> snd (snd (True, False, True)))
   \<and> xor8_populate (True, False, True) [1, 2, 3] 3 example8
       = Some (Inr (False, example8\<lparr>seed := fst (xor_rng_splitmix64 1)\<rparr>, []))"
  using xor_populate_scratch_failure [of "(True, False, True)" "[1, 2, 3]" 3 example8] by simp

section \<open>Claims about the construction\<close>

text \<open>
  Claim C1. If \<^verbatim>\<open>xor8_populate\<close> (resp. \<^verbatim>\<open>xor16_populate\<close>) returns true, then for every key
  \<open>k\<close> among the \<^verbatim>\<open>size\<close> keys of the input array \<^verbatim>\<open>xor8_contain\<close> (resp. \<^verbatim>\<open>xor16_contain\<close>)
  returns true on the filter as the call leaves it; equivalently, the three slot
  indices of \<open>k\<close> lie in the fingerprint array and the fingerprint of \<open>k\<close>, cut to the cell
  width, is the exclusive or of the three cells. A call that returns true has not run
  into a fault, which is all the proof needs of the filter and of the keys: it holds
  for every filter that \<^verbatim>\<open>xor8_allocate\<close> sized and every array of distinct keys.
\<close>

theorem xor_populate_no_false_negative:
  fixes f8 f8' :: xor8_t and f16 f16' :: xor16_t
  shows "(xor8_populate m keys sz f8 = Some (Inr (True, f8', held)) \<longrightarrow>
          (\<forall>k \<in> set (take (unat sz) keys).
             xor8_contain k f8' = Inr True
             \<and> (\<exists>F. fingerprints f8' = Some F
                   \<and> unat (h0 (xor8_get_h0_h1_h2 k f8')) < length F
                   \<and> unat (h1 (xor8_get_h0_h1_h2 k f8')) < length F
                   \<and> unat (h2 (xor8_get_h0_h1_h2 k f8')) < length F
                   \<and> ucast (xor_fingerprint (h (xor8_get_h0_h1_h2 k f8')))
                       = F ! unat (h0 (xor8_get_h0_h1_h2 k f8'))
                         XOR F ! unat (h1 (xor8_get_h0_h1_h2 k f8'))
                         XOR F ! unat (h2 (xor8_get_h0_h1_h2 k f8')))))
       \<and> (xor16_populate m' keys' sz' f16 = Some (Inr (True, f16', held')) \<longrightarrow>
          (\<forall>k \<in> set (take (unat sz') keys').
             xor16_contain k f16' = Inr True
             \<and> (\<exists>F. fingerprints f16' = Some F
                   \<and> unat (h0 (xor16_get_h0_h1_h2 k f16')) < length F
                   \<and> unat (h1 (xor16_get_h0_h1_h2 k f16')) < length F
                   \<and> unat (h2 (xor16_get_h0_h1_h2 k f16')) < length F
                   \<and> ucast (xor_fingerprint (h (xor16_get_h0_h1_h2 k f16')))
                       = F ! unat (h0 (xor16_get_h0_h1_h2 k f16'))
                         XOR F ! unat (h1 (xor16_get_h0_h1_h2 k f16'))
                         XOR F ! unat (h2 (xor16_get_h0_h1_h2 k f16')))))"
proof -
  have w8: "LENGTH(8) \<le> 64" and w16: "LENGTH(16) \<le> 64" by simp_all
  show ?thesis
    unfolding xor8_populate_def xor16_populate_def xor8_contain_def xor16_contain_def
      xor8_get_h0_h1_h2_def xor16_get_h0_h1_h2_def
    using xor_populate_no_false_negatives [OF w8] xor_populate_no_false_negatives [OF w16]
    by blast
qed

theorem xor_populate_no_false_negative_witness:
  "xor8_populate (True, True, True) [1, 2, 3] 3 run8_in = Some (Inr (True, example8, []))
   \<and> xor16_populate (True, True, True) [5, 7, 11] 3 run16_in = Some (Inr (True, example16, []))
   \<and> xor8_contain 1 example8 = Inr True \<and> xor8_contain 2 example8 = Inr True
   \<and> xor8_contain 3 example8 = Inr True
   \<and> xor16_contain 5 example16 = Inr True \<and> xor16_contain 7 example16 = Inr True
   \<and> xor16_contain 11 example16 = Inr True"
  using xor_populate_no_false_negative
    [of "(True, True, True)" "[1, 2, 3]" 3 run8_in example8 "[]"
        "(True, True, True)" "[5, 7, 11]" 3 run16_in example16 "[]"]
    run8_populate_example run16_populate_example
  by simp

section \<open>Claims about the slot indices\<close>

lemma slots_in_array:
  assumes "blockLength filt \<noteq> 0"
  shows "\<forall>s \<in> set (slots filt hv). s < 3 * unat (blockLength filt)"
proof -
  have pos: "0 < unat (blockLength filt)" using assms by (simp add: unat_gt_0)
  have "slot_cut32 i (unat r) (unat (blockLength filt)) < 3 * unat (blockLength filt)"
    if "i \<le> 2" for i and r :: "32 word"
    by (rule slot_cut32_in_array [OF pos unat_lt_2p32 that])
  then show ?thesis
    by (simp add: slots_def xor_get_just_h0_h1_h2_def Let_def unat_slots)
qed

lemma get_slots_in_blocks:
  assumes "blockLength filt \<noteq> 0" and "3 * unat (blockLength filt) \<le> 2 ^ 32"
  shows "unat (h0 (xor_get_h0_h1_h2 k filt)) < unat (blockLength filt)"
    and "unat (blockLength filt) \<le> unat (h1 (xor_get_h0_h1_h2 k filt))"
    and "unat (h1 (xor_get_h0_h1_h2 k filt)) < 2 * unat (blockLength filt)"
    and "2 * unat (blockLength filt) \<le> unat (h2 (xor_get_h0_h1_h2 k filt))"
    and "unat (h2 (xor_get_h0_h1_h2 k filt)) < 3 * unat (blockLength filt)"
proof -
  have pos: "0 < unat (blockLength filt)" using assms(1) by (simp add: unat_gt_0)
  have r: "i * unat (blockLength filt) \<le> slot_cut32 i (x mod 2 ^ 32) (unat (blockLength filt))
         \<and> slot_cut32 i (x mod 2 ^ 32) (unat (blockLength filt)) < (i + 1) * unat (blockLength filt)"
    if "i \<le> 2" for i x
  proof -
    have "slot_cut32 i (x mod 2 ^ 32) (unat (blockLength filt))
            = spec_slot i (x mod 2 ^ 32) (unat (blockLength filt))"
      by (rule slot_cut32_spec [OF assms(2) _ that]) simp
    then show ?thesis using spec_slot_range [OF pos, of "x mod 2 ^ 32" i] by simp
  qed
  let ?n = "unat (blockLength filt)"
  let ?hv = "h (xor_get_h0_h1_h2 k filt)"
  from r [of 0 "unat ?hv"] have a: "slot_cut32 0 (unat ?hv mod 2 ^ 32) ?n < ?n" by simp
  from r [of 1 "unat (word_rotl 21 ?hv)"]
  have b: "?n \<le> slot_cut32 1 (unat (word_rotl 21 ?hv) mod 2 ^ 32) ?n"
    "slot_cut32 1 (unat (word_rotl 21 ?hv) mod 2 ^ 32) ?n < 2 * ?n" by simp_all
  from r [of 2 "unat (word_rotl 42 ?hv)"]
  have c: "2 * ?n \<le> slot_cut32 2 (unat (word_rotl 42 ?hv) mod 2 ^ 32) ?n"
    "slot_cut32 2 (unat (word_rotl 42 ?hv) mod 2 ^ 32) ?n < 3 * ?n" by simp_all
  show "unat (h0 (xor_get_h0_h1_h2 k filt)) < unat (blockLength filt)"
    unfolding unat_get_slots by (rule a)
  show "unat (blockLength filt) \<le> unat (h1 (xor_get_h0_h1_h2 k filt))"
    unfolding unat_get_slots by (rule b(1))
  show "unat (h1 (xor_get_h0_h1_h2 k filt)) < 2 * unat (blockLength filt)"
    unfolding unat_get_slots by (rule b(2))
  show "2 * unat (blockLength filt) \<le> unat (h2 (xor_get_h0_h1_h2 k filt))"
    unfolding unat_get_slots by (rule c(1))
  show "unat (h2 (xor_get_h0_h1_h2 k filt)) < 3 * unat (blockLength filt)"
    unfolding unat_get_slots by (rule c(2))
qed

lemma sub_eff_length: "sub_eff hv ss sets s' \<Longrightarrow> length s' = length sets"
  by (simp add: sub_eff_def)

lemma xor_peel_indices:
  assumes "\<forall>ki \<in> set stack. unat (index ki) < length sets"
    and "xor_peel filt qcap scap sets Q stack = Inr stk"
  shows "\<forall>ki \<in> set stk. unat (index ki) < length sets"
  using assms
proof (induction filt qcap scap sets Q stack rule: xor_peel.induct)
  case (1 filt qcap scap sets Q stack)
  show ?case
  proof (cases "Q = []")
    case True
    with "1.prems" show ?thesis by (auto simp: xor_peel.simps)
  next
    case False
    with "1.prems"(2) obtain sets' Q' stack' where
      step: "xor_peel_step filt qcap scap (sets, Q, stack) = Inr (sets', Q', stack')"
      and rest: "xor_peel filt qcap scap sets' Q' stack' = Inr stk"
      by (subst (asm) xor_peel.simps) (auto split: sum.splits)
    from step have "length sets' = length sets
        \<and> (\<forall>ki \<in> set stack'. unat (index ki) < length sets)"
    proof (cases rule: xor_peel_step_Inr)
      case skip
      with "1.prems"(1) show ?thesis by simp
    next
      case (peel hv s1 s2 Q1 Q2)
      have "length sets' = length sets"
        using sub3_effect [OF peel(6,7,8)] by (rule sub_eff_length)
      with "1.prems"(1) peel(1,5) show ?thesis by simp
    qed
    then have "\<forall>ki \<in> set stack'. unat (index ki) < length sets'" and l: "length sets' = length sets"
      by simp_all
    from "1.IH" [OF False step refl refl this(1) rest] l show ?thesis by simp
  qed
qed

lemma unat_mult_le: "unat (x * y) \<le> unat x * unat y" for x y :: "64 word"
  by (simp add: unat_word_ariths)

lemma scratch_cells_le: "unat (blockLength filt * 3 * 16) div 16 \<le> 3 * unat (blockLength filt)"
proof -
  have u: "unat (16 :: 64 word) = 16" "unat (3 :: 64 word) = 3" by simp_all
  have "unat (blockLength filt * 3 * 16) \<le> unat (blockLength filt * 3) * 16"
    using unat_mult_le [of "blockLength filt * 3" 16] unfolding u .
  moreover have "unat (blockLength filt * 3) \<le> unat (blockLength filt) * 3"
    using unat_mult_le [of "blockLength filt" 3] unfolding u .
  ultimately show ?thesis by linarith
qed

lemma xor_attempt_indices:
  assumes "xor_attempt filt keys sz = Inr stk"
  shows "\<forall>ki \<in> set stk. unat (index ki) < 3 * unat (blockLength filt)"
  using assms
proof (cases rule: xor_attempt_Inr)
  case (1 sets Q)
  have "length sets = unat (blockLength filt * 3 * 16) div 16"
    using xor_count_keys_rep [OF 1(2) rep_zero] by simp
  then have "length sets \<le> 3 * unat (blockLength filt)"
    using scratch_cells_le [of filt] by simp
  moreover have "\<forall>ki \<in> set stk. unat (index ki) < length sets"
    by (rule xor_peel_indices [OF _ 1(4)]) simp
  ultimately show ?thesis by fastforce
qed

lemma xor_assign_no_fault:
  fixes filt :: "('w::len) word xor_t"
  assumes "xor_allocated filt" and "\<forall>ki \<in> set L. unat (index ki) < 3 * unat (blockLength filt)"
  shows "\<exists>filt'. xor_assign filt L = Inr filt'"
  using assms
proof (induction L arbitrary: filt)
  case Nil
  show ?case by simp
next
  case (Cons ki L)
  from Cons.prems(1) obtain F where F: "fingerprints filt = Some F"
    and len: "length F = 3 * unat (blockLength filt)" and nz: "blockLength filt \<noteq> 0"
    by (auto simp: xor_allocated_def split: option.splits)
  have idx: "unat (index ki) < length F" using Cons.prems(2) len by simp
  have ss: "\<forall>s \<in> set (slots filt (hash ki)). s < length F"
    using slots_in_array [OF nz] len by simp
  have "xor_allocated (filt\<lparr>fingerprints := Some F'\<rparr>)" if "length F' = length F" for F'
    using that len nz by (simp add: xor_allocated_def)
  from Cons.IH [OF this] Cons.prems(2)
  have "\<exists>filt'. xor_assign (filt\<lparr>fingerprints := Some F'\<rparr>) L = Inr filt'" if "length F' = length F" for F'
    using that by simp
  then show ?case
    using F idx ss by (simp add: Let_def on_ok_def array_get_def array_set_def slots_def)
qed


text \<open>
  Claim C7, as amended. For every key and every filter with \<open>blockLength\<close> not 0: when
  \<open>3 * blockLength \<le> 2 ^ 32\<close>, the three indices lie in the three blocks, \<open>h0\<close> in
  \<open>[0, blockLength)\<close>, \<open>h1\<close> in \<open>[blockLength, 2 * blockLength)\<close> and \<open>h2\<close> in
  \<open>[2 * blockLength, 3 * blockLength)\<close>, and are pairwise distinct. Whatever the block
  length, each of the three is below \<open>3 * blockLength\<close>; so on an allocated filter
  (\<open>3 * blockLength\<close> cells) \<^verbatim>\<open>contain\<close> reads inside the array, and so does the assignment
  loop of \<^verbatim>\<open>populate\<close> on every stack that an attempt has produced.
\<close>

theorem xor_slot_indices_in_array:
  fixes filt :: "('w::len) word xor_t"
  assumes "blockLength filt \<noteq> 0"
  shows "(3 * unat (blockLength filt) \<le> 2 ^ 32 \<longrightarrow>
            unat (h0 (xor_get_h0_h1_h2 k filt)) < unat (blockLength filt)
          \<and> unat (blockLength filt) \<le> unat (h1 (xor_get_h0_h1_h2 k filt))
          \<and> unat (h1 (xor_get_h0_h1_h2 k filt)) < 2 * unat (blockLength filt)
          \<and> 2 * unat (blockLength filt) \<le> unat (h2 (xor_get_h0_h1_h2 k filt))
          \<and> unat (h2 (xor_get_h0_h1_h2 k filt)) < 3 * unat (blockLength filt)
          \<and> h0 (xor_get_h0_h1_h2 k filt) \<noteq> h1 (xor_get_h0_h1_h2 k filt)
          \<and> h0 (xor_get_h0_h1_h2 k filt) \<noteq> h2 (xor_get_h0_h1_h2 k filt)
          \<and> h1 (xor_get_h0_h1_h2 k filt) \<noteq> h2 (xor_get_h0_h1_h2 k filt))
       \<and> unat (h0 (xor_get_h0_h1_h2 k filt)) < 3 * unat (blockLength filt)
       \<and> unat (h1 (xor_get_h0_h1_h2 k filt)) < 3 * unat (blockLength filt)
       \<and> unat (h2 (xor_get_h0_h1_h2 k filt)) < 3 * unat (blockLength filt)
       \<and> (xor_allocated filt \<longrightarrow> (\<exists>b. xor_contain k filt = Inr b))
       \<and> (xor_allocated filt \<longrightarrow>
            (\<forall>stk. xor_attempt filt keys sz = Inr stk \<longrightarrow>
               (\<exists>filt'. xor_assign filt (rev stk) = Inr filt')))"
proof -
  have blocks: "unat (h0 (xor_get_h0_h1_h2 k filt)) < unat (blockLength filt)
          \<and> unat (blockLength filt) \<le> unat (h1 (xor_get_h0_h1_h2 k filt))
          \<and> unat (h1 (xor_get_h0_h1_h2 k filt)) < 2 * unat (blockLength filt)
          \<and> 2 * unat (blockLength filt) \<le> unat (h2 (xor_get_h0_h1_h2 k filt))
          \<and> unat (h2 (xor_get_h0_h1_h2 k filt)) < 3 * unat (blockLength filt)
          \<and> h0 (xor_get_h0_h1_h2 k filt) \<noteq> h1 (xor_get_h0_h1_h2 k filt)
          \<and> h0 (xor_get_h0_h1_h2 k filt) \<noteq> h2 (xor_get_h0_h1_h2 k filt)
          \<and> h1 (xor_get_h0_h1_h2 k filt) \<noteq> h2 (xor_get_h0_h1_h2 k filt)"
    if "3 * unat (blockLength filt) \<le> 2 ^ 32"
    using get_slots_in_blocks [OF assms that, of k] by auto
  have contain: "\<exists>b. xor_contain k filt = Inr b" if "xor_allocated filt"
  proof -
    from that obtain F where "fingerprints filt = Some F"
      by (auto simp: xor_allocated_def split: option.splits)
    from xor_contain_allocated [OF that this] show ?thesis by blast
  qed
  have assign: "\<exists>filt'. xor_assign filt (rev stk) = Inr filt'"
    if "xor_allocated filt" "xor_attempt filt keys sz = Inr stk" for stk
    by (rule xor_assign_no_fault [OF that(1)]) (use xor_attempt_indices [OF that(2)] in simp)
  have A: "3 * unat (blockLength filt) \<le> 2 ^ 32 \<longrightarrow>
            unat (h0 (xor_get_h0_h1_h2 k filt)) < unat (blockLength filt)
          \<and> unat (blockLength filt) \<le> unat (h1 (xor_get_h0_h1_h2 k filt))
          \<and> unat (h1 (xor_get_h0_h1_h2 k filt)) < 2 * unat (blockLength filt)
          \<and> 2 * unat (blockLength filt) \<le> unat (h2 (xor_get_h0_h1_h2 k filt))
          \<and> unat (h2 (xor_get_h0_h1_h2 k filt)) < 3 * unat (blockLength filt)
          \<and> h0 (xor_get_h0_h1_h2 k filt) \<noteq> h1 (xor_get_h0_h1_h2 k filt)
          \<and> h0 (xor_get_h0_h1_h2 k filt) \<noteq> h2 (xor_get_h0_h1_h2 k filt)
          \<and> h1 (xor_get_h0_h1_h2 k filt) \<noteq> h2 (xor_get_h0_h1_h2 k filt)"
    using blocks by (rule impI)
  have C: "xor_allocated filt \<longrightarrow> (\<exists>b. xor_contain k filt = Inr b)"
    using contain by (rule impI)
  have D: "xor_allocated filt \<longrightarrow>
            (\<forall>stk. xor_attempt filt keys sz = Inr stk \<longrightarrow>
               (\<exists>filt'. xor_assign filt (rev stk) = Inr filt'))"
    using assign by (intro impI allI)
  show ?thesis
    by (intro conjI A C D get_slots_in_array [OF assms])
qed


theorem xor_slot_indices_in_array_witness:
  "blockLength run8_seeded \<noteq> 0 \<and> 3 * unat (blockLength run8_seeded) \<le> 2 ^ 32
   \<and> xor_allocated run8_seeded
   \<and> xor_attempt run8_seeded [1, 2, 3] 3
       = Inr [\<lparr>hash = 13110481669377847333, index = 5\<rparr>,
              \<lparr>hash = 7639283029843589050, index = 1\<rparr>,
              \<lparr>hash = 7178537244092407270, index = 4\<rparr>]
   \<and> unat (h0 (xor_get_h0_h1_h2 1 run8_seeded)) < unat (blockLength run8_seeded)
   \<and> 2 * unat (blockLength run8_seeded) \<le> unat (h2 (xor_get_h0_h1_h2 1 run8_seeded))
   \<and> unat (h2 (xor_get_h0_h1_h2 1 run8_seeded)) < 3 * unat (blockLength run8_seeded)
   \<and> (\<exists>b. xor_contain 1 run8_seeded = Inr b)
   \<and> (\<exists>filt'. xor_assign run8_seeded
                  (rev [\<lparr>hash = 13110481669377847333, index = 5\<rparr>,
                        \<lparr>hash = 7639283029843589050, index = 1\<rparr>,
                        \<lparr>hash = 7178537244092407270, index = 4\<rparr>]) = Inr filt')"
proof -
  have a: "blockLength run8_seeded \<noteq> 0" and b: "3 * unat (blockLength run8_seeded) \<le> 2 ^ 32"
    and c: "xor_allocated run8_seeded"
    by (simp_all add: run8_seeded_def xor_allocated_def)
  note t = xor_slot_indices_in_array [OF a, of 1 "[1, 2, 3]" 3]
  note blocks = t [THEN conjunct1, THEN mp, OF b]
  note rest = t [THEN conjunct2, THEN conjunct2, THEN conjunct2, THEN conjunct2]
  note contain = rest [THEN conjunct1, THEN mp, OF c]
  note assign = rest [THEN conjunct2, THEN mp, OF c, THEN spec, THEN mp, OF run8_attempt]
  from blocks have "unat (h0 (xor_get_h0_h1_h2 1 run8_seeded)) < unat (blockLength run8_seeded)"
    and "2 * unat (blockLength run8_seeded) \<le> unat (h2 (xor_get_h0_h1_h2 1 run8_seeded))"
    and "unat (h2 (xor_get_h0_h1_h2 1 run8_seeded)) < 3 * unat (blockLength run8_seeded)"
    by blast+
  with a b c run8_attempt contain assign show ?thesis
    by (intro conjI)
qed

text \<open>
  The claim as it is stated, for \<open>1 \<le> blockLength < 2 ^ 32\<close>, fails where
  \<open>2 ^ 32 < 3 * blockLength\<close>: for the key 12 in \<open>wrap_filter\<close> the sum for \<^verbatim>\<open>h2\<close> wraps
  around in its \<^verbatim>\<open>uint32_t\<close> and \<^verbatim>\<open>h2\<close> is 40212987, below \<open>2 * blockLength\<close>.
\<close>

theorem xor_slot_indices_in_array_counterexample:
  "blockLength wrap_filter \<noteq> 0 \<and> unat (blockLength wrap_filter) < 2 ^ 32
   \<and> unat (h2 (xor8_get_h0_h1_h2 12 wrap_filter)) < 2 * unat (blockLength wrap_filter)
   \<and> unat (h2 (xor8_get_h0_h1_h2 12 wrap_filter)) = 40212987"
  by (simp add: xor8_get_h0_h1_h2_def wrap_filter_def hash_eval)



section \<open>Properties of the allocator\<close>

lemma bitlen_0: "bitlen 0 = 0"
  by (subst bitlen.simps) simp

lemma bitlen_pos: "n \<noteq> 0 \<Longrightarrow> bitlen n = Suc (bitlen (n div 2))"
  by (subst bitlen.simps) simp

lemma capacity_0: "xor_capacity 0 = Inr 32"
  unfolding xor_capacity_def Let_def
  by (simp add: round53_def bitlen_0 bitlen_pos Let_def)

lemma capacity_1: "xor_capacity 1 = Inr 33"
  unfolding xor_capacity_def Let_def
  by (simp add: round53_def bitlen_0 bitlen_pos Let_def)

lemma bitlen_le_iff: "bitlen n \<le> k \<longleftrightarrow> n < 2 ^ k"
proof (induction n arbitrary: k rule: bitlen.induct)
  case (1 n)
  show ?case
  proof (cases "n = 0")
    case True
    then show ?thesis by (simp add: bitlen_0)
  next
    case False
    note nz = this
    show ?thesis
    proof (cases k)
      case 0
      then show ?thesis using nz by (simp add: bitlen_pos)
    next
      case (Suc k')
      have "bitlen (n div 2) \<le> k' \<longleftrightarrow> n div 2 < 2 ^ k'"
        using 1 [OF nz] .
      moreover have "n div 2 < 2 ^ k' \<longleftrightarrow> n < 2 * 2 ^ k'" by auto
      ultimately show ?thesis using nz Suc by (simp add: bitlen_pos)
    qed
  qed
qed

lemma bitlen_upper: "n < 2 ^ bitlen n"
  using bitlen_le_iff [of n "bitlen n"] by simp

lemma bitlen_lower:
  assumes "bitlen n = Suc k"
  shows "2 ^ k \<le> n"
proof (rule ccontr)
  assume "\<not> 2 ^ k \<le> n"
  then have "n < 2 ^ k" by simp
  then have "bitlen n \<le> k" by (simp add: bitlen_le_iff)
  then show False using assms by simp
qed

lemma round53_small: "a < 2 ^ 53 \<Longrightarrow> round53 a = a"
proof -
  assume "a < 2 ^ 53"
  then have "bitlen a \<le> 53" by (simp add: bitlen_le_iff)
  then have "bitlen a - 53 = 0" by simp
  then show ?thesis by (simp add: round53_def Let_def)
qed

lemma round53_bounds:
  "a div 2 ^ (bitlen a - 53) * 2 ^ (bitlen a - 53) \<le> round53 a"
  "round53 a \<le> (if a mod 2 ^ (bitlen a - 53) = 0 then a
                 else (a div 2 ^ (bitlen a - 53) + 1) * 2 ^ (bitlen a - 53))"
  by (auto simp: round53_def Let_def)

lemma round53_exact:
  assumes "t < 2 ^ 53"
  shows "round53 (t * 2 ^ j) = t * 2 ^ j"
proof -
  let ?a = "t * 2 ^ j"
  have "?a < 2 ^ 53 * 2 ^ j" using assms by simp
  then have "?a < 2 ^ (53 + j)" by (simp add: power_add)
  then have "bitlen ?a \<le> 53 + j" by (simp add: bitlen_le_iff)
  then have "bitlen ?a - 53 \<le> j" by simp
  then have "(2::nat) ^ (bitlen ?a - 53) dvd 2 ^ j" by (rule le_imp_power_dvd)
  then have d: "2 ^ (bitlen ?a - 53) dvd ?a" by (rule dvd_mult)
  then have "?a mod 2 ^ (bitlen ?a - 53) = 0" by simp
  moreover have "?a div 2 ^ (bitlen ?a - 53) * 2 ^ (bitlen ?a - 53) = ?a"
    using d by simp
  ultimately show ?thesis
    using round53_bounds [of ?a] by simp
qed

lemma scale_lower:
  assumes "bitlen a - 53 \<noteq> 0"
  shows "2 ^ (52 + (bitlen a - 53)) \<le> a"
proof -
  have "bitlen a = Suc (52 + (bitlen a - 53))" using assms by simp
  then show ?thesis by (rule bitlen_lower)
qed

lemma round53_up:
  assumes t: "t < 2 ^ 53" and le: "a \<le> t * 2 ^ j"
  shows "round53 a \<le> t * 2 ^ j"
proof (cases "a mod 2 ^ (bitlen a - 53) = 0")
  case True
  then show ?thesis using round53_bounds(2) [of a] le by simp
next
  case False
  define e where "e = bitlen a - 53"
  define q where "q = a div 2 ^ e"
  have r: "a mod 2 ^ e \<noteq> 0" using False by (simp add: e_def)
  then have e0: "e \<noteq> 0" by (cases e) simp_all
  have low: "2 ^ (52 + e) \<le> a"
    using scale_lower [of a] e0 by (simp add: e_def)
  have up: "round53 a \<le> (q + 1) * 2 ^ e"
    using round53_bounds(2) [of a] False by (simp add: e_def q_def)
  have ej: "e \<le> j"
  proof (rule ccontr)
    assume "\<not> e \<le> j"
    then have "Suc j \<le> e" by simp
    then have "(2::nat) ^ (53 + j) \<le> 2 ^ (52 + e)" by (intro power_increasing) simp_all
    moreover have "t * 2 ^ j < 2 ^ 53 * 2 ^ j" using t by simp
    then have "t * 2 ^ j < 2 ^ (53 + j)" by (simp add: power_add)
    ultimately show False using low le by linarith
  qed
  then obtain i where j: "j = e + i" using le_Suc_ex by blast
  have g: "t * 2 ^ j = (t * 2 ^ i) * 2 ^ e" by (simp add: j power_add)
  have "q * 2 ^ e < a"
  proof -
    have "a = q * 2 ^ e + a mod 2 ^ e"
      using div_mult_mod_eq [of a "2 ^ e"] by (simp add: q_def)
    then show ?thesis using r by linarith
  qed
  then have "q * 2 ^ e < (t * 2 ^ i) * 2 ^ e" using le g by linarith
  then have "q < t * 2 ^ i" by simp
  then have "q + 1 \<le> t * 2 ^ i" by simp
  then have "(q + 1) * 2 ^ e \<le> (t * 2 ^ i) * 2 ^ e" by (rule mult_le_mono1)
  then show ?thesis using up g by linarith
qed

lemma round53_down:
  assumes t: "t < 2 ^ 53" and le: "t * 2 ^ j \<le> a"
  shows "t * 2 ^ j \<le> round53 a"
proof -
  define e where "e = bitlen a - 53"
  define q where "q = a div 2 ^ e"
  have down: "q * 2 ^ e \<le> round53 a"
    using round53_bounds(1) [of a] by (simp add: e_def q_def)
  show ?thesis
  proof (cases "e \<le> j")
    case True
    then obtain i where j: "j = e + i" using le_Suc_ex by blast
    have g: "t * 2 ^ j = (t * 2 ^ i) * 2 ^ e" by (simp add: j power_add)
    have "a < (q + 1) * 2 ^ e"
    proof -
      have "a = q * 2 ^ e + a mod 2 ^ e"
        using div_mult_mod_eq [of a "2 ^ e"] by (simp add: q_def)
      moreover have "a mod 2 ^ e < 2 ^ e" by simp
      moreover have "(q + 1) * 2 ^ e = q * 2 ^ e + 2 ^ e" by simp
      ultimately show ?thesis by linarith
    qed
    then have "(t * 2 ^ i) * 2 ^ e < (q + 1) * 2 ^ e" using le g by linarith
    then have "t * 2 ^ i < q + 1" by (simp only: mult_less_cancel2)
    then have "t * 2 ^ i \<le> q" by simp
    then have "(t * 2 ^ i) * 2 ^ e \<le> q * 2 ^ e" by (rule mult_le_mono1)
    then show ?thesis using down g by linarith
  next
    case False
    then have e0: "e \<noteq> 0" and je: "Suc j \<le> e" by simp_all
    have low: "2 ^ (52 + e) \<le> a"
      using scale_lower [of a] e0 by (simp add: e_def)
    have "2 ^ 52 * 2 ^ e \<le> a" using low by (simp add: power_add)
    then have "2 ^ 52 \<le> q"
      unfolding q_def by (simp add: less_eq_div_iff_mult_less_eq)
    then have "2 ^ 52 * 2 ^ e \<le> q * 2 ^ e" by (rule mult_le_mono1)
    then have q: "2 ^ (52 + e) \<le> q * 2 ^ e" by (simp add: power_add)
    have "(2::nat) ^ (53 + j) \<le> 2 ^ (52 + e)" using je by (intro power_increasing) simp_all
    moreover have "t * 2 ^ j < 2 ^ 53 * 2 ^ j" using t by simp
    then have "t * 2 ^ j < 2 ^ (53 + j)" by (simp add: power_add)
    ultimately show ?thesis using q down by linarith
  qed
qed

lemma round53_near:
  assumes d: "d \<noteq> 0" and half: "2 * d < 2 ^ (bitlen (V - d) - 53)"
    and dv: "2 ^ (bitlen (V - d) - 53) dvd V" and dV: "d \<le> V"
  shows "round53 (V - d) = V"
proof -
  define e where "e = bitlen (V - d) - 53"
  obtain G where G: "V = G * 2 ^ e" using dv by (auto simp: e_def dvd_def mult.commute)
  have "G \<noteq> 0" using G d dV by (cases G) simp_all
  then obtain G' where G': "G = Suc G'" by (cases G) simp_all
  have dlt: "d < 2 ^ e" using half by (simp add: e_def)
  define r where "r = 2 ^ e - d"
  have rlt: "r < 2 ^ e" using d dlt by (simp add: r_def)
  have a: "V - d = G' * 2 ^ e + r"
    using dlt by (simp add: G G' r_def)
  have q: "(V - d) div 2 ^ e = G'"
    unfolding a using rlt by simp
  have m: "(V - d) mod 2 ^ e = r"
    unfolding a using rlt by simp
  have "2 ^ e < 2 * r" using half by (simp add: e_def r_def)
  then have "round53 (V - d) = (G' + 1) * 2 ^ e"
    using q m by (simp add: round53_def Let_def e_def [symmetric])
  then show ?thesis by (simp add: G G')
qed


lemma round53_correction:
  assumes m: "m \<noteq> 0" and small: "m < 2 ^ 44"
  shows "round53 (5539427541665710 * (100 * m)) = 123 * m * 2 ^ 52"
proof -
  define V where "V = 123 * m * (2::nat) ^ 52"
  define d where "d = 8 * m"
  define A where "A = V - d"
  have A: "5539427541665710 * (100 * m) = V - d" by (simp add: V_def d_def)
  have Am: "A = m * 553942754166571000" by (simp add: A_def V_def d_def)
  have "bitlen m \<noteq> 0" using bitlen_le_iff [of m 0] m by simp
  then obtain j where j: "bitlen m = Suc j" by (cases "bitlen m") simp_all
  have "2 ^ j \<le> m" using j by (rule bitlen_lower)
  then have "2 ^ j * 2 ^ 57 \<le> m * (2::nat) ^ 57" by (rule mult_le_mono1)
  moreover have "m * (2::nat) ^ 57 \<le> A" unfolding Am by simp
  ultimately have "2 ^ (bitlen m + 56) \<le> A" by (simp add: j power_add)
  then have "\<not> A < 2 ^ (bitlen m + 56)" by simp
  then have "\<not> bitlen A \<le> bitlen m + 56" by (simp add: bitlen_le_iff)
  then have "bitlen m + 4 \<le> bitlen A - 53" by simp
  then have "(2::nat) ^ (bitlen m + 4) \<le> 2 ^ (bitlen A - 53)"
    by (intro power_increasing) simp_all
  moreover have "16 * m < 16 * 2 ^ bitlen m" using bitlen_upper [of m] by simp
  ultimately have half: "2 * d < 2 ^ (bitlen (V - d) - 53)"
    by (simp add: power_add d_def A_def)
  have "A < 2 ^ 44 * 553942754166571000" unfolding Am using small by simp
  then have "A < 2 ^ 105" by simp
  then have "bitlen A \<le> 105" by (simp add: bitlen_le_iff)
  then have "bitlen A - 53 \<le> 52" by simp
  then have "(2::nat) ^ (bitlen A - 53) dvd 2 ^ 52" by (rule le_imp_power_dvd)
  then have dv: "2 ^ (bitlen (V - d) - 53) dvd V"
    unfolding V_def A_def by (rule dvd_mult)
  have "round53 (V - d) = V"
    using m by (intro round53_near half dv) (simp_all add: d_def V_def)
  then show ?thesis unfolding A V_def [symmetric] .
qed

lemma xor_capacity_exact:
  assumes n: "n < 2 ^ 44"
  shows "xor_capacity n = Inr (word_of_nat ((3200 + 123 * n) div 100))"
proof -
  define k' where "k' = (100 + 123 * n) div 100"
  define rho where "rho = (100 + 123 * n) mod 100"
  define A where "A = 5539427541665710 * n"
  define p where "p = round53 A"
  define s where "s = round53 (32 * 2 ^ 52 + p)"
  have kr: "100 * k' + rho = 100 + 123 * n"
    by (simp only: k'_def rho_def mult_div_mod_eq)
  have rho: "rho < 100" by (simp add: rho_def)
  have k: "(3200 + 123 * n) div 100 = k' + 31" by (simp add: k'_def)
  have n': "n < 17592186044416" using n by simp
  have k1: "1 \<le> k'" using kr rho by linarith
  have kb: "k' < 30000000000000" using kr n' by linarith
  have A100: "100 * A + 8 * n = 553942754166571008 * n" by (simp add: A_def)
  define t1 where "t1 = k' * 256 - 1"
  define t2 where "t2 = (k' + 32) * 256 - 1"
  have t1: "t1 < 2 ^ 53" and t2: "t2 < 2 ^ 53" using kb by (simp_all add: t1_def t2_def)
  have t1v: "t1 * 2 ^ 44 + 17592186044416 = k' * 4503599627370496"
    using k1 by (simp add: t1_def diff_mult_distrib)
  have t2v: "t2 * 2 ^ 44 + 17592186044416 = k' * 4503599627370496 + 144115188075855872"
    by (simp add: t2_def diff_mult_distrib)
  have "A \<le> t1 * 2 ^ 44" using t1v A100 kr rho by linarith
  then have pu: "p \<le> t1 * 2 ^ 44" unfolding p_def by (rule round53_up [OF t1])
  have "32 * 2 ^ 52 + p \<le> t2 * 2 ^ 44" using pu t1v t2v by simp
  then have "s \<le> t2 * 2 ^ 44" unfolding s_def by (rule round53_up [OF t2])
  then have su: "s < (k' + 32) * 2 ^ 52" using t2v by simp
  have pl: "(k' - 1) * 2 ^ 52 \<le> p"
  proof (cases "rho = 0")
    case False
    have "(k' - 1) * 2 ^ 52 + 4503599627370496 = k' * 4503599627370496"
      using k1 by (simp add: diff_mult_distrib)
    then have "(k' - 1) * 2 ^ 52 \<le> A" using A100 kr rho False n' by linarith
    moreover have "k' - 1 < 2 ^ 53" using kb by simp
    ultimately show ?thesis unfolding p_def by (intro round53_down)
  next
    case True
    have "87 * (100 + 123 * n) = n + 100 * (87 + 107 * n)" by simp
    then have "100 * (87 * k') = n + 100 * (87 + 107 * n)" using kr True by simp
    then have "100 dvd n + 100 * (87 + 107 * n)" by (metis dvd_triv_left)
    moreover have "(100::nat) dvd 100 * (87 + 107 * n)" by (rule dvd_triv_left)
    ultimately have "100 dvd n" by (simp only: dvd_add_left_iff)
    then obtain m where m: "n = 100 * m" by (auto simp: dvd_def)
    have km: "k' - 1 = 123 * m" using kr True m by simp
    show ?thesis
    proof (cases "m = 0")
      case True
      then show ?thesis using km by simp
    next
      case False
      moreover have "m < 2 ^ 44" using n m by simp
      ultimately have "round53 (5539427541665710 * (100 * m)) = 123 * m * 2 ^ 52"
        by (rule round53_correction)
      then have "p = (k' - 1) * 2 ^ 52" unfolding p_def A_def m km .
      then show ?thesis by simp
    qed
  qed
  have "(k' + 31) * 2 ^ 52 = 32 * 2 ^ 52 + (k' - 1) * 2 ^ 52"
    using k1 by (simp add: diff_mult_distrib)
  then have "(k' + 31) * 2 ^ 52 \<le> 32 * 2 ^ 52 + p" using pl by linarith
  moreover have "k' + 31 < 2 ^ 53" using kb by simp
  ultimately have sl: "(k' + 31) * 2 ^ 52 \<le> s" unfolding s_def by (intro round53_down)
  have "s div 2 ^ 52 = k' + 31"
  proof -
    have "k' + 31 \<le> s div 2 ^ 52"
      using sl by (simp add: less_eq_div_iff_mult_less_eq)
    moreover have "s div 2 ^ 52 < k' + 32"
      using su by (simp add: div_less_iff_less_mult)
    ultimately show ?thesis by simp
  qed
  moreover have "k' + 31 < 2 ^ 64" using kb by simp
  moreover have "round53 n = n" using n by (intro round53_small) simp
  ultimately show ?thesis
    unfolding xor_capacity_def Let_def k
    by (simp only: A_def [symmetric] p_def [symmetric] s_def [symmetric] if_True)
qed



lemma capacity_10: "xor_capacity 10 = Inr 44"
  using xor_capacity_exact [of 10] by simp

lemma capacity_far: "xor_capacity 114439865464613 = Inr 140761034521506"
  unfolding xor_capacity_def Let_def
  by (simp add: round53_def bitlen_0 bitlen_pos Let_def)

lemma unat_div3_mult3:
  fixes c :: "64 word"
  shows "unat (c div 3 * 3) = 3 * (unat c div 3)"
proof -
  have "unat c div 3 * 3 \<le> unat c" by simp
  moreover have "unat c < 2 ^ 64" using unsigned_less [of c] by simp
  ultimately have "unat c div 3 * 3 < 2 ^ 64" by linarith
  then show ?thesis by (simp add: unat_word_ariths unat_div)
qed

lemma div3_mult3_div3:
  fixes c :: "64 word"
  shows "c div 3 * 3 div 3 = c div 3"
  by (rule word_unat_eq_iff [THEN iffD2]) (simp add: unat_div unat_div3_mult3)

lemma xor8_allocate_result:
  assumes "xor_capacity (unat sz) = Inr c"
  shows "xor8_allocate m sz filt =
           Inr (fst m, if fst m
                  then filt\<lparr>fingerprints := Some (map (snd m) [0..<3 * (unat c div 3)]),
                            blockLength := c div 3\<rparr>
                  else filt\<lparr>fingerprints := None\<rparr>)"
  using assms
  by (simp add: xor8_allocate_def on_ok_def xor_malloc_def Let_def unat_div3_mult3 div3_mult3_div3)

lemma xor16_allocate_result:
  assumes "xor_capacity (unat sz) = Inr c" and "unat c < 2 ^ 63"
  shows "xor16_allocate m sz filt =
           Inr (fst m, if fst m
                  then filt\<lparr>fingerprints := Some (map (snd m) [0..<3 * (unat c div 3)]),
                            blockLength := c div 3\<rparr>
                  else filt\<lparr>fingerprints := None, blockLength := c div 3\<rparr>)"
proof -
  have y: "unat (c div 3) = unat c div 3" by (simp add: unat_div)
  have "6 * unat (c div 3) < 2 ^ 64" using assms(2) y by simp
  then have "unat (6 * (c div 3)) = 6 * unat (c div 3)"
    using unat_mult_lem [of 6 "c div 3"] by simp
  then have "unat (6 * (c div 3)) div 2 = 3 * (unat c div 3)" using y by simp
  then show ?thesis
    using assms(1)
    by (simp add: xor16_allocate_def on_ok_def xor_malloc_def Let_def div3_mult3_div3)
qed

lemma xor16_allocate_failed:
  assumes "xor_capacity (unat sz) = Inr c"
  shows "xor16_allocate (False, g) sz filt
           = Inr (False, filt\<lparr>fingerprints := None, blockLength := c div 3\<rparr>)"
  using assms by (simp add: xor16_allocate_def on_ok_def xor_malloc_def Let_def)

lemma capacity_value:
  assumes "n < 2 ^ 44"
  shows "unat (word_of_nat ((3200 + 123 * n) div 100) :: 64 word) = (3200 + 123 * n) div 100"
proof -
  have "n < 17592186044416" using assms by simp
  then have "(3200 + 123 * n) div 100 < 2 ^ 64" by simp
  then show ?thesis by (simp add: unat_of_nat)
qed

lemma capacity_block_length:
  assumes "n < 2 ^ 44"
  shows "\<exists>c. xor_capacity n = Inr c \<and> unat c < 2 ^ 63
           \<and> unat c div 3 = spec_block_length n
           \<and> c div 3 = word_of_nat (spec_block_length n)"
proof -
  define c :: "64 word" where "c = word_of_nat ((3200 + 123 * n) div 100)"
  have c: "xor_capacity n = Inr c" unfolding c_def using assms by (rule xor_capacity_exact)
  have u: "unat c = (3200 + 123 * n) div 100" unfolding c_def using assms by (rule capacity_value)
  have "n < 17592186044416" using assms by simp
  then have b: "unat c < 2 ^ 63" unfolding u by simp
  have d: "unat c div 3 = spec_block_length n"
    unfolding u spec_block_length_def by (simp add: div_mult2_eq [symmetric])
  have "unat (c div 3) = spec_block_length n" using d by (simp add: unat_div)
  then have "word_of_nat (unat (c div 3)) = (word_of_nat (spec_block_length n) :: 64 word)"
    by simp
  then have "c div 3 = word_of_nat (spec_block_length n)" by simp
  then show ?thesis using c b d by blast
qed

lemma block_length_value:
  assumes "n < 2 ^ 44"
  shows "unat (word_of_nat (spec_block_length n) :: 64 word) = spec_block_length n"
proof -
  have "n < 17592186044416" using assms by simp
  then have "spec_block_length n < 2 ^ 64" by (simp add: spec_block_length_def)
  then show ?thesis by (simp add: unat_of_nat)
qed

lemma unat_32_small: "unat (sz :: 32 word) < 2 ^ 44"
proof -
  have "unat sz < 2 ^ 32" using unsigned_less [of sz] by simp
  then show ?thesis by simp
qed

lemma xor8_allocate_spec:
  "xor8_allocate m sz filt =
     Inr (fst m, if fst m
            then filt\<lparr>fingerprints := Some (map (snd m) [0..<3 * spec_block_length (unat sz)]),
                      blockLength := word_of_nat (spec_block_length (unat sz))\<rparr>
            else filt\<lparr>fingerprints := None\<rparr>)"
proof -
  obtain c where "xor_capacity (unat sz) = Inr c"
    and "unat c div 3 = spec_block_length (unat sz)"
    and "c div 3 = word_of_nat (spec_block_length (unat sz))"
    using capacity_block_length [OF unat_32_small [of sz]] by blast
  then show ?thesis using xor8_allocate_result [of sz c m filt] by simp
qed

lemma xor16_allocate_spec:
  assumes "unat sz < 2 ^ 44"
  shows "xor16_allocate m sz filt =
     Inr (fst m, if fst m
            then filt\<lparr>fingerprints := Some (map (snd m) [0..<3 * spec_block_length (unat sz)]),
                      blockLength := word_of_nat (spec_block_length (unat sz))\<rparr>
            else filt\<lparr>fingerprints := None,
                      blockLength := word_of_nat (spec_block_length (unat sz))\<rparr>)"
proof -
  obtain c where "xor_capacity (unat sz) = Inr c" and "unat c < 2 ^ 63"
    and "unat c div 3 = spec_block_length (unat sz)"
    and "c div 3 = word_of_nat (spec_block_length (unat sz))"
    using capacity_block_length [OF assms] by blast
  then show ?thesis using xor16_allocate_result [of sz c m filt] by simp
qed


section \<open>Claims about the empty key set\<close>

lemma xor_scan_zero:
  assumes "\<forall>i \<in> set is. i < n"
  shows "xor_scan is (replicate n \<lparr>xormask = 0, count = 0\<rparr>) qcap Q = Inr Q"
  using assms by (induction "is") (simp_all add: on_ok_def array_get_def)

lemma unat_mult_16:
  fixes x :: "64 word"
  assumes "unat x < 2 ^ 60"
  shows "unat (x * 16) div 16 = unat x"
proof -
  have "unat x * 16 < 2 ^ 64" using assms by simp
  then have "unat (x * 16) = unat x * 16"
    by (simp add: unat_word_ariths)
  then show ?thesis by simp
qed

lemma xor_attempt_empty:
  assumes "3 * unat (blockLength filt) < 2 ^ 60"
  shows "xor_attempt filt keys 0 = Inr []"
proof -
  have "unat (blockLength filt * 3) \<le> unat (blockLength filt) * 3"
    using unat_mult_le [of "blockLength filt" 3] by simp
  with assms have "unat (blockLength filt * 3) < 2 ^ 60" by linarith
  then have n: "unat (blockLength filt * 3 * 16) div 16 = unat (blockLength filt * 3)"
    by (rule unat_mult_16)
  have scan: "xor_scan [0..<unat (blockLength filt * 3)]
      (replicate (unat (blockLength filt * 3)) \<lparr>xormask = 0, count = 0\<rparr>) qcap [] = Inr []" for qcap
    by (rule xor_scan_zero) simp
  show ?thesis
    unfolding xor_attempt_def Let_def n
    by (simp add: on_ok_def scan xor_peel.simps)
qed

lemma xor_populate_empty_keys:
  fixes filt :: "('w::len) word xor_t"
  assumes "3 * unat (blockLength filt) < 2 ^ 60"
  shows "xor_populate (True, True, True) keys 0 filt
           = Some (Inr (True, filt\<lparr>seed := fst (xor_rng_splitmix64 1)\<rparr>, []))"
proof -
  obtain r c where rc: "xor_rng_splitmix64 1 = (r, c)" by (cases "xor_rng_splitmix64 1")
  have "xor_attempt (filt\<lparr>seed := r\<rparr>) keys 0 = Inr []"
    by (rule xor_attempt_empty) (use assms in simp)
  then have "xor_populate_loop (filt\<lparr>seed := r\<rparr>) keys 0 c = Some (Inr (filt\<lparr>seed := r\<rparr>, []))"
    by (subst xor_populate_loop.simps) simp
  then show ?thesis
    by (simp add: xor_populate_def rc Let_def xor_free_def List.map_filter_def)
qed

lemma xor_contain_zeroed:
  fixes filt :: "('w::len) word xor_t"
  assumes "blockLength filt \<noteq> 0"
    and "fingerprints filt = Some (replicate (3 * unat (blockLength filt)) 0)"
  shows "xor_contain k filt = Inr (ucast (xor_fingerprint (h (xor_get_h0_h1_h2 k filt))) = (0 :: 'w word))"
proof -
  have "xor_allocated filt" using assms by (simp add: xor_allocated_def)
  from xor_contain_allocated [OF this assms(2), of k] get_slots_in_array [OF assms(1), of k]
  show ?thesis by simp
qed

text \<open>
  Claim C5, as amended. For the empty input (\<open>size = 0\<close>) \<^verbatim>\<open>populate\<close>, once its three scratch
  arrays are allocated and \<open>3 * blockLength < 2 ^ 60\<close>, returns true after one attempt, having
  written the first seed and nothing else: the fingerprint cells are left as they were.
  Afterwards, on an allocated filter, \<^verbatim>\<open>contain\<close> returns true for \<open>k\<close> exactly when
  \<open>fp(k)\<close> equals the XOR of the three cells that were there before the call; when every
  cell was 0 before the call, exactly when \<open>fp(k) = 0\<close>. Both widths.
\<close>

theorem xor_populate_empty_set:
  fixes f8 :: xor8_t and f16 :: xor16_t
  shows "(3 * unat (blockLength f8) < 2 ^ 60 \<longrightarrow>
            xor8_populate (True, True, True) keys 0 f8
              = Some (Inr (True, f8\<lparr>seed := fst (xor_rng_splitmix64 1)\<rparr>, [])))
       \<and> (xor_allocated f8 \<longrightarrow>
            (\<forall>F. fingerprints f8 = Some F \<longrightarrow>
               xor8_contain k (f8\<lparr>seed := fst (xor_rng_splitmix64 1)\<rparr>)
                 = Inr (ucast (xor_fingerprint (h (xor8_get_h0_h1_h2 k (f8\<lparr>seed := fst (xor_rng_splitmix64 1)\<rparr>))))
                        = F ! unat (h0 (xor8_get_h0_h1_h2 k (f8\<lparr>seed := fst (xor_rng_splitmix64 1)\<rparr>)))
                          XOR F ! unat (h1 (xor8_get_h0_h1_h2 k (f8\<lparr>seed := fst (xor_rng_splitmix64 1)\<rparr>)))
                          XOR F ! unat (h2 (xor8_get_h0_h1_h2 k (f8\<lparr>seed := fst (xor_rng_splitmix64 1)\<rparr>))))))
       \<and> (blockLength f8 \<noteq> 0 \<longrightarrow>
            fingerprints f8 = Some (replicate (3 * unat (blockLength f8)) 0) \<longrightarrow>
            xor8_contain k (f8\<lparr>seed := fst (xor_rng_splitmix64 1)\<rparr>)
              = Inr (ucast (xor_fingerprint (h (xor8_get_h0_h1_h2 k (f8\<lparr>seed := fst (xor_rng_splitmix64 1)\<rparr>))))
                     = (0 :: 8 word)))
       \<and> (3 * unat (blockLength f16) < 2 ^ 60 \<longrightarrow>
            xor16_populate (True, True, True) keys' 0 f16
              = Some (Inr (True, f16\<lparr>seed := fst (xor_rng_splitmix64 1)\<rparr>, [])))
       \<and> (xor_allocated f16 \<longrightarrow>
            (\<forall>F. fingerprints f16 = Some F \<longrightarrow>
               xor16_contain k' (f16\<lparr>seed := fst (xor_rng_splitmix64 1)\<rparr>)
                 = Inr (ucast (xor_fingerprint (h (xor16_get_h0_h1_h2 k' (f16\<lparr>seed := fst (xor_rng_splitmix64 1)\<rparr>))))
                        = F ! unat (h0 (xor16_get_h0_h1_h2 k' (f16\<lparr>seed := fst (xor_rng_splitmix64 1)\<rparr>)))
                          XOR F ! unat (h1 (xor16_get_h0_h1_h2 k' (f16\<lparr>seed := fst (xor_rng_splitmix64 1)\<rparr>)))
                          XOR F ! unat (h2 (xor16_get_h0_h1_h2 k' (f16\<lparr>seed := fst (xor_rng_splitmix64 1)\<rparr>))))))
       \<and> (blockLength f16 \<noteq> 0 \<longrightarrow>
            fingerprints f16 = Some (replicate (3 * unat (blockLength f16)) 0) \<longrightarrow>
            xor16_contain k' (f16\<lparr>seed := fst (xor_rng_splitmix64 1)\<rparr>)
              = Inr (ucast (xor_fingerprint (h (xor16_get_h0_h1_h2 k' (f16\<lparr>seed := fst (xor_rng_splitmix64 1)\<rparr>))))
                     = (0 :: 16 word)))"
proof -
  have pop: "3 * unat (blockLength filt) < 2 ^ 60 \<longrightarrow>
      xor_populate (True, True, True) ks 0 filt
        = Some (Inr (True, filt\<lparr>seed := fst (xor_rng_splitmix64 1)\<rparr>, []))"
    for filt :: "('w::len) word xor_t" and ks
    using xor_populate_empty_keys by blast
  have gen: "xor_allocated filt \<longrightarrow>
      (\<forall>F. fingerprints filt = Some F \<longrightarrow>
         xor_contain x (filt\<lparr>seed := s\<rparr>)
           = Inr (ucast (xor_fingerprint (h (xor_get_h0_h1_h2 x (filt\<lparr>seed := s\<rparr>))))
                  = F ! unat (h0 (xor_get_h0_h1_h2 x (filt\<lparr>seed := s\<rparr>)))
                    XOR F ! unat (h1 (xor_get_h0_h1_h2 x (filt\<lparr>seed := s\<rparr>)))
                    XOR F ! unat (h2 (xor_get_h0_h1_h2 x (filt\<lparr>seed := s\<rparr>)))))"
    for filt :: "('w::len) word xor_t" and x s
  proof (intro impI allI)
    fix F assume a: "xor_allocated filt" and F: "fingerprints filt = Some F"
    have "xor_allocated (filt\<lparr>seed := s\<rparr>)"
      using a by (simp add: xor_allocated_def split: option.splits)
    moreover have "fingerprints (filt\<lparr>seed := s\<rparr>) = Some F" using F by simp
    ultimately show "xor_contain x (filt\<lparr>seed := s\<rparr>)
           = Inr (ucast (xor_fingerprint (h (xor_get_h0_h1_h2 x (filt\<lparr>seed := s\<rparr>))))
                  = F ! unat (h0 (xor_get_h0_h1_h2 x (filt\<lparr>seed := s\<rparr>)))
                    XOR F ! unat (h1 (xor_get_h0_h1_h2 x (filt\<lparr>seed := s\<rparr>)))
                    XOR F ! unat (h2 (xor_get_h0_h1_h2 x (filt\<lparr>seed := s\<rparr>))))"
      by (rule xor_contain_allocated)
  qed
  have zero: "blockLength filt \<noteq> 0 \<longrightarrow>
      fingerprints filt = Some (replicate (3 * unat (blockLength filt)) 0) \<longrightarrow>
      xor_contain x (filt\<lparr>seed := s\<rparr>)
        = Inr (ucast (xor_fingerprint (h (xor_get_h0_h1_h2 x (filt\<lparr>seed := s\<rparr>)))) = (0 :: 'w word))"
    for filt :: "('w::len) word xor_t" and x s
  proof (intro impI)
    assume "blockLength filt \<noteq> 0"
      and "fingerprints filt = Some (replicate (3 * unat (blockLength filt)) 0)"
    then show "xor_contain x (filt\<lparr>seed := s\<rparr>)
        = Inr (ucast (xor_fingerprint (h (xor_get_h0_h1_h2 x (filt\<lparr>seed := s\<rparr>)))) = (0 :: 'w word))"
      by (intro xor_contain_zeroed) simp_all
  qed
  show ?thesis
    unfolding xor8_populate_def xor16_populate_def xor8_contain_def xor16_contain_def
      xor8_get_h0_h1_h2_def xor16_get_h0_h1_h2_def
    by (intro conjI pop gen zero)
qed

theorem xor_populate_empty_set_witness:
  "3 * unat (blockLength run8_in) < 2 ^ 60 \<and> xor_allocated run8_in
   \<and> fingerprints run8_in = Some [0, 0, 0, 0, 0, 0] \<and> blockLength run8_in \<noteq> 0
   \<and> fingerprints run8_in = Some (replicate (3 * unat (blockLength run8_in)) 0)
   \<and> xor8_populate (True, True, True) [] 0 run8_in
       = Some (Inr (True, run8_in\<lparr>seed := fst (xor_rng_splitmix64 1)\<rparr>, []))
   \<and> xor8_contain 1 (run8_in\<lparr>seed := fst (xor_rng_splitmix64 1)\<rparr>)
       = Inr (ucast (xor_fingerprint (h (xor8_get_h0_h1_h2 1 (run8_in\<lparr>seed := fst (xor_rng_splitmix64 1)\<rparr>))))
              = (0 :: 8 word))"
proof -
  have a: "3 * unat (blockLength run8_in) < 2 ^ 60" and b: "xor_allocated run8_in"
    and c: "fingerprints run8_in = Some [0, 0, 0, 0, 0, 0]" and d: "blockLength run8_in \<noteq> 0"
    by (simp_all add: run8_in_def xor_allocated_def)
  have n: "3 * unat (blockLength run8_in) = 6" by (simp add: run8_in_def)
  have r: "replicate 6 (0 :: 8 word) = [0, 0, 0, 0, 0, 0]" by (simp add: numeral_eq_Suc)
  have e: "fingerprints run8_in = Some (replicate (3 * unat (blockLength run8_in)) 0)"
    unfolding n r by (simp add: run8_in_def)
  note t = xor_populate_empty_set [of run8_in "[]" 1]
  note p = t [THEN conjunct1, THEN mp, OF a]
  note z = t [THEN conjunct2, THEN conjunct2, THEN conjunct1, THEN mp, THEN mp, OF d e]
  from a b c d e p z show ?thesis by (intro conjI)
qed

theorem xor_populate_empty_set_counterexample:
  "xor8_allocate (True, \<lambda>i. 1) 0 unallocated8 = Inr (True, garbage8)
   \<and> xor8_populate (True, True, True) [] 0 garbage8
       = Some (Inr (True, garbage8\<lparr>seed := 10451216379200822465\<rparr>, []))
   \<and> fingerprints (garbage8\<lparr>seed := 10451216379200822465\<rparr>) = Some (replicate 30 1)
   \<and> xor8_contain 454 (garbage8\<lparr>seed := 10451216379200822465\<rparr>) = Inr True
   \<and> (ucast (xor_fingerprint (h (xor8_get_h0_h1_h2 454 (garbage8\<lparr>seed := 10451216379200822465\<rparr>))))
        :: 8 word) = 1"
proof -
  have a: "xor8_allocate (True, \<lambda>i. 1) 0 unallocated8 = Inr (True, garbage8)"
    by (simp add: xor8_allocate_def capacity_0 on_ok_def xor_malloc_def Let_def map_replicate_const
        unallocated8_def garbage8_def)
  have s: "fst (xor_rng_splitmix64 1) = 10451216379200822465"
    by (simp add: xor_rng_splitmix64_def Let_def)
  have "3 * unat (blockLength garbage8) < 2 ^ 60" by (simp add: garbage8_def)
  from xor_populate_empty_keys [OF this, of "[]"]
  have b: "xor8_populate (True, True, True) [] 0 garbage8
       = Some (Inr (True, garbage8\<lparr>seed := 10451216379200822465\<rparr>, []))"
    by (simp add: xor8_populate_def s)
  have c: "fingerprints (garbage8\<lparr>seed := 10451216379200822465\<rparr>) = Some (replicate 30 1)"
    by (simp add: garbage8_def)
  have d: "xor8_contain 454 (garbage8\<lparr>seed := 10451216379200822465\<rparr>) = Inr True"
    by (simp add: xor8_contain_def xor_contain_def garbage8_def hash_eval on_ok_def array_get_def)
  have e: "(ucast (xor_fingerprint (h (xor8_get_h0_h1_h2 454 (garbage8\<lparr>seed := 10451216379200822465\<rparr>))))
        :: 8 word) = 1"
    by (simp add: xor8_get_h0_h1_h2_def garbage8_def hash_eval)
  from a b c d e show ?thesis by (intro conjI)
qed


section \<open>Claims about the allocator\<close>

text \<open>
  Claim C4, as amended. \<^verbatim>\<open>xor8_allocate\<close>, for every \<open>size\<close>, and \<^verbatim>\<open>xor16_allocate\<close>, for
  \<open>size < 2 ^ 44\<close>, return what \<^verbatim>\<open>malloc\<close> answered: true with
  \<open>blockLength = floor((32 + 1.23 * size) / 3)\<close> and a block of exactly \<open>3 * blockLength\<close>
  cells, or false when \<^verbatim>\<open>malloc\<close> refuses the block and in no other case. The block length
  is stored without wrapping around, and for \<open>size = 10\<close> it is 14.
\<close>

theorem xor_allocate_block_length:
  fixes f8 :: xor8_t and f16 :: xor16_t
  shows "xor8_allocate m sz f8 =
           Inr (fst m, if fst m
                  then f8\<lparr>fingerprints := Some (map (snd m) [0..<3 * spec_block_length (unat sz)]),
                          blockLength := word_of_nat (spec_block_length (unat sz))\<rparr>
                  else f8\<lparr>fingerprints := None\<rparr>)
       \<and> unat (word_of_nat (spec_block_length (unat sz)) :: 64 word) = spec_block_length (unat sz)
       \<and> (unat sz' < 2 ^ 44 \<longrightarrow>
            xor16_allocate m' sz' f16 =
              Inr (fst m', if fst m'
                     then f16\<lparr>fingerprints := Some (map (snd m') [0..<3 * spec_block_length (unat sz')]),
                              blockLength := word_of_nat (spec_block_length (unat sz'))\<rparr>
                     else f16\<lparr>fingerprints := None,
                              blockLength := word_of_nat (spec_block_length (unat sz'))\<rparr>)
            \<and> unat (word_of_nat (spec_block_length (unat sz')) :: 64 word)
                = spec_block_length (unat sz'))
       \<and> spec_block_length 10 = 14"
proof (intro conjI impI)
  show "xor8_allocate m sz f8 =
           Inr (fst m, if fst m
                  then f8\<lparr>fingerprints := Some (map (snd m) [0..<3 * spec_block_length (unat sz)]),
                          blockLength := word_of_nat (spec_block_length (unat sz))\<rparr>
                  else f8\<lparr>fingerprints := None\<rparr>)"
    by (rule xor8_allocate_spec)
  show "unat (word_of_nat (spec_block_length (unat sz)) :: 64 word) = spec_block_length (unat sz)"
    by (rule block_length_value [OF unat_32_small])
  show "spec_block_length 10 = 14" by (simp add: spec_block_length_def)
next
  assume a: "unat sz' < 2 ^ 44"
  then show "xor16_allocate m' sz' f16 =
              Inr (fst m', if fst m'
                     then f16\<lparr>fingerprints := Some (map (snd m') [0..<3 * spec_block_length (unat sz')]),
                              blockLength := word_of_nat (spec_block_length (unat sz'))\<rparr>
                     else f16\<lparr>fingerprints := None,
                              blockLength := word_of_nat (spec_block_length (unat sz'))\<rparr>)"
    by (rule xor16_allocate_spec)
  show "unat (word_of_nat (spec_block_length (unat sz')) :: 64 word) = spec_block_length (unat sz')"
    using a by (rule block_length_value)
qed

theorem xor_allocate_block_length_witness:
  "unat (10 :: 64 word) < 2 ^ 44
   \<and> xor8_allocate (True, \<lambda>i. 0) 10 unallocated8
       = Inr (True, \<lparr>seed = 0, blockLength = 14, fingerprints = Some (replicate 42 0)\<rparr>)
   \<and> xor16_allocate (True, \<lambda>i. 0) 10 unallocated16
       = Inr (True, \<lparr>seed = 0, blockLength = 14, fingerprints = Some (replicate 42 0)\<rparr>)
   \<and> xor16_allocate (False, \<lambda>i. 0) 10 unallocated16
       = Inr (False, \<lparr>seed = 0, blockLength = 14, fingerprints = None\<rparr>)"
proof -
  have a: "unat (10 :: 64 word) < 2 ^ 44" by simp
  have b: "spec_block_length 10 = 14" by (simp add: spec_block_length_def)
  note t = xor_allocate_block_length [of "(True, \<lambda>i. 0)" 10 unallocated8 10 "(True, \<lambda>i. 0)" unallocated16]
  note u = xor_allocate_block_length [of "(True, \<lambda>i. 0)" 10 unallocated8 10 "(False, \<lambda>i. 0)" unallocated16]
  have c: "xor8_allocate (True, \<lambda>i. 0) 10 unallocated8
       = Inr (True, \<lparr>seed = 0, blockLength = 14, fingerprints = Some (replicate 42 0)\<rparr>)"
    using t [THEN conjunct1] by (simp add: b unallocated8_def map_replicate_const)
  have d: "xor16_allocate (True, \<lambda>i. 0) 10 unallocated16
       = Inr (True, \<lparr>seed = 0, blockLength = 14, fingerprints = Some (replicate 42 0)\<rparr>)"
    using t [THEN conjunct2, THEN conjunct2, THEN conjunct1, THEN mp, OF a, THEN conjunct1]
    by (simp add: b unallocated16_def map_replicate_const)
  have e: "xor16_allocate (False, \<lambda>i. 0) 10 unallocated16
       = Inr (False, \<lparr>seed = 0, blockLength = 14, fingerprints = None\<rparr>)"
    using u [THEN conjunct2, THEN conjunct2, THEN conjunct1, THEN mp, OF a, THEN conjunct1]
    by (simp add: b unallocated16_def)
  from a c d e show ?thesis by (intro conjI)
qed

theorem xor_allocate_block_length_counterexample:
  "(\<exists>g. xor16_allocate (True, \<lambda>i. 0) 114439865464613 unallocated16 = Inr (True, g)
         \<and> blockLength g = 46920344840502)
   \<and> spec_block_length 114439865464613 = 46920344840501"
proof -
  have "unat (114439865464613 :: 64 word) = 114439865464613" by simp
  then have c: "xor_capacity (unat (114439865464613 :: 64 word)) = Inr 140761034521506"
    by (simp only: capacity_far)
  have d: "unat (140761034521506 :: 64 word) < 2 ^ 63" by simp
  have "xor16_allocate (True, \<lambda>i. 0) 114439865464613 unallocated16 =
      Inr (True, unallocated16\<lparr>fingerprints := Some (map (\<lambda>i. 0)
                                   [0..<3 * (unat (140761034521506 :: 64 word) div 3)]),
                  blockLength := 140761034521506 div 3\<rparr>)"
    using xor16_allocate_result [OF c d, of "(True, \<lambda>i. 0)" unallocated16]
    by (simp only: fst_conv snd_conv if_True)
  moreover have "blockLength (unallocated16\<lparr>fingerprints := Some (map (\<lambda>i. 0)
                                   [0..<3 * (unat (140761034521506 :: 64 word) div 3)]),
                  blockLength := 140761034521506 div 3\<rparr>) = 46920344840502"
  proof -
    have "(140761034521506 :: 64 word) div 3 = 46920344840502"
      by (simp add: word_div_def)
    moreover have "blockLength (unallocated16\<lparr>fingerprints := F, blockLength := b\<rparr>) = b"
      for F b by simp
    ultimately show ?thesis by (simp only:)
  qed
  moreover have "spec_block_length 114439865464613 = 46920344840501"
    by (simp add: spec_block_length_def)
  ultimately show ?thesis by blast
qed

end
